theory Spec2Isabelle
  imports Main "HOL-Library.Word" "HOL-Library.Sublist"
begin

unbundle bit_operations_syntax

section \<open>Layer classification (internal/runtime/oci.go, PullProviderOCI, lines 109-170)\<close>

text \<open>
  An OCI descriptor, with the three fields the pull pipeline reads. Go strings are byte
  sequences, and so is \<^typ>\<open>string\<close>. \<open>Size\<close> is an \<open>int64\<close> that the classifier never
  computes with.
\<close>

record Descriptor =
  MediaType :: string
  Digest :: string
  Size :: int

definition emptyMediaType :: string where
  "emptyMediaType = ''application/vnd.oci.empty.v1+json''"

definition providerMediaType :: string where
  "providerMediaType = ''application/vnd.sourceplane.provider.v1''"

definition assetsMediaType :: string where
  "assetsMediaType = ''application/vnd.sourceplane.assets.v1''"

definition binaryPrefix :: string where
  "binaryPrefix = ''application/vnd.sourceplane.bin.''"

text \<open>
  \<open>fmt.Sprintf("application/vnd.sourceplane.bin.%s-%s", currentOS, currentArch)\<close>;
  \<open>runtime.GOOS\<close> and \<open>runtime.GOARCH\<close> are parameters of the model.
\<close>

definition binaryMediaType :: "string \<Rightarrow> string \<Rightarrow> string" where
  "binaryMediaType currentOS currentArch = binaryPrefix @ currentOS @ ''-'' @ currentArch"

text \<open>\<open>strings.HasPrefix\<close> and \<open>bytes.HasPrefix\<close>.\<close>

definition HasPrefix :: "string \<Rightarrow> string \<Rightarrow> bool" where
  "HasPrefix s pre = (take (length pre) s = pre)"

text \<open>
  The three role variables of the loop. The source holds pointers into
  \<open>manifest.Layers\<close>, which nothing writes after parsing; a pointer is represented by the
  descriptor it points at, and \<open>nil\<close> by \<open>None\<close>.
\<close>

record Roles =
  providerLayer :: "Descriptor option"
  assetsLayer :: "Descriptor option"
  binaryLayer :: "Descriptor option"

definition noRoles :: Roles where
  "noRoles = \<lparr>providerLayer = None, assetsLayer = None, binaryLayer = None\<rparr>"

text \<open>One iteration of \<open>for i, layer := range manifest.Layers\<close>: the \<open>switch\<close>, in its order.\<close>

definition classifyStep :: "string \<Rightarrow> Roles \<Rightarrow> Descriptor \<Rightarrow> Roles" where
  "classifyStep binMT st layer =
     (if MediaType layer = emptyMediaType then st
      else if MediaType layer = providerMediaType then st\<lparr>providerLayer := Some layer\<rparr>
      else if MediaType layer = assetsMediaType then st\<lparr>assetsLayer := Some layer\<rparr>
      else if MediaType layer = binMT then st\<lparr>binaryLayer := Some layer\<rparr>
      else if HasPrefix (MediaType layer) binaryPrefix then st
      else st)"

definition classifyLoop :: "string \<Rightarrow> Descriptor list \<Rightarrow> Roles" where
  "classifyLoop binMT layers = foldl (classifyStep binMT) noRoles layers"

text \<open>\<open>if p != nil { layersToDownload = append(layersToDownload, p) }\<close>\<close>

definition appendIfSet :: "Descriptor list \<Rightarrow> Descriptor option \<Rightarrow> Descriptor list" where
  "appendIfSet ls p = (case p of None \<Rightarrow> ls | Some d \<Rightarrow> ls @ [d])"

datatype ClassifyError =
  NoCompatibleLayers        \<comment> \<open>"no compatible provider layers found in manifest"\<close>
| ProviderLayerNotFound     \<comment> \<open>"provider manifest layer not found in manifest"\<close>

text \<open>
  What the classification hands to the download scheduler. \<open>legacyFallback\<close> is the
  spec's name for having taken the \<open>if binaryLayer == nil\<close> branch, which rebuilds
  \<open>layersToDownload\<close> from every layer that is not the empty placeholder.
\<close>

record ClassificationResult =
  roles :: Roles
  layersToDownload :: "Descriptor list"
  legacyFallback :: bool

definition classifyLayers ::
  "string \<Rightarrow> string \<Rightarrow> Descriptor list \<Rightarrow> ClassifyError + ClassificationResult" where
  "classifyLayers currentOS currentArch layers =
     (let st = classifyLoop (binaryMediaType currentOS currentArch) layers;
          selected = appendIfSet (appendIfSet (appendIfSet [] (providerLayer st))
                       (assetsLayer st)) (binaryLayer st)
      in if length selected = 0 then Inl NoCompatibleLayers
         else if providerLayer st = None \<and> assetsLayer st = None then Inl ProviderLayerNotFound
         else if binaryLayer st = None then
           Inr \<lparr>roles = st,
                layersToDownload = filter (\<lambda>l. MediaType l \<noteq> emptyMediaType) layers,
                legacyFallback = True\<rparr>
         else Inr \<lparr>roles = st, layersToDownload = selected, legacyFallback = False\<rparr>)"

text \<open>The last element of a list, when there is one: the value a loop variable that every
  match overwrites holds at the end.\<close>

definition lastOpt :: "'a list \<Rightarrow> 'a option" where
  "lastOpt xs = (if xs = [] then None else Some (last xs))"

text \<open>A descriptor written out field by field, for the concrete manifests below.\<close>

abbreviation mkLayer :: "string \<Rightarrow> string \<Rightarrow> int \<Rightarrow> Descriptor" where
  "mkLayer mt dg sz \<equiv> \<lparr>MediaType = mt, Digest = dg, Size = sz\<rparr>"

section \<open>Hand-rolled string helpers (internal/runtime/oci.go, lines 486-505)\<close>

text \<open>
  \<open>s[i:j]\<close> on a Go string: the bytes from \<open>i\<close> up to \<open>j\<close>, and a run-time panic
  (\<open>None\<close>) unless \<open>0 \<le> i \<le> j \<le> len(s)\<close>. Go's \<open>int\<close> is 64 bits wide; the
  lengths of two strings held in memory and their difference plus one stay far inside
  it, so the indices are modelled by \<^typ>\<open>int\<close>.
\<close>

definition slice :: "string \<Rightarrow> int \<Rightarrow> int \<Rightarrow> string option" where
  "slice s i j =
     (if 0 \<le> i \<and> i \<le> j \<and> j \<le> int (length s)
      then Some (take (nat (j - i)) (drop (nat i) s)) else None)"

text \<open>
  \<open>for i := 0; i < len(s)-len(substr)+1; i++ { if s[i:i+len(substr)] == substr { return true } }\<close>
\<close>

function containsLoop :: "string \<Rightarrow> string \<Rightarrow> int \<Rightarrow> bool option" where
  "containsLoop s substr i =
     (if i < int (length s) - int (length substr) + 1 then
        (case slice s i (i + int (length substr)) of
           None \<Rightarrow> None
         | Some t \<Rightarrow> if t = substr then Some True else containsLoop s substr (i + 1))
      else Some False)"
  by pat_completeness auto
termination
  by (relation "measure (\<lambda>(s, substr, i). nat (int (length s) - int (length substr) + 1 - i))")
    auto

definition contains :: "string \<Rightarrow> string \<Rightarrow> bool option" where
  "contains s substr = containsLoop s substr 0"

text \<open>
  \<open>for i := 0; i <= len(s)-len(substr); i++ { if s[i:i+len(substr)] == substr { last = i } }\<close>
\<close>

function lastIndexLoop :: "string \<Rightarrow> string \<Rightarrow> int \<Rightarrow> int \<Rightarrow> int option" where
  "lastIndexLoop s substr i lst =
     (if i \<le> int (length s) - int (length substr) then
        (case slice s i (i + int (length substr)) of
           None \<Rightarrow> None
         | Some t \<Rightarrow> lastIndexLoop s substr (i + 1) (if t = substr then i else lst))
      else Some lst)"
  by pat_completeness auto
termination
  by (relation "measure (\<lambda>(s, substr, i, lst). nat (int (length s) - int (length substr) + 1 - i))")
    auto

definition lastIndexOf :: "string \<Rightarrow> string \<Rightarrow> int option" where
  "lastIndexOf s substr = lastIndexLoop s substr 0 (- 1)"

text \<open>The loop equations are unfolded on request only.\<close>

declare containsLoop.simps [simp del] lastIndexLoop.simps [simp del]

text \<open>
  The standard library's side of the comparison, from its documentation:
  \<open>strings.Contains\<close> reports whether \<open>substr\<close> is within \<open>s\<close>, and
  \<open>strings.LastIndex\<close> returns the index of the last instance of \<open>substr\<close> in \<open>s\<close>, or
  \<open>-1\<close> if \<open>substr\<close> is not present in \<open>s\<close>.
\<close>

definition occursAt :: "string \<Rightarrow> string \<Rightarrow> nat \<Rightarrow> bool" where
  "occursAt s substr i = (i + length substr \<le> length s \<and> take (length substr) (drop i s) = substr)"

definition strings_Contains :: "string \<Rightarrow> string \<Rightarrow> bool" where
  "strings_Contains s substr = (\<exists>i \<in> {0..length s}. occursAt s substr i)"

definition strings_LastIndex :: "string \<Rightarrow> string \<Rightarrow> int" where
  "strings_LastIndex s substr =
     (if strings_Contains s substr
      then int (Max (Set.filter (occursAt s substr) {0..length s}))
      else - 1)"

section \<open>Path names (Go's path/filepath on a Unix system)\<close>

text \<open>
  The functions of \<open>path/filepath\<close> the repository calls, from their documentation and for
  the separator \<open>/\<close>. \<open>Clean\<close> drops empty and \<open>.\<close> elements, cancels an inner \<open>..\<close>
  against the element before it, drops a \<open>..\<close> that begins a rooted path, and returns
  \<open>.\<close> for an empty result.
\<close>

fun splitOn :: "char \<Rightarrow> string \<Rightarrow> string list" where
  "splitOn c [] = [[]]"
| "splitOn c (x # xs) =
     (if x = c then [] # splitOn c xs
      else (case splitOn c xs of [] \<Rightarrow> [[x]] | e # es \<Rightarrow> (x # e) # es))"

definition isRooted :: "string \<Rightarrow> bool" where
  "isRooted p = (case p of [] \<Rightarrow> False | c # _ \<Rightarrow> c = CHR ''/'')"

definition cleanStep :: "bool \<Rightarrow> string list \<Rightarrow> string \<Rightarrow> string list" where
  "cleanStep rooted out e =
     (if e = [] \<or> e = ''.'' then out
      else if e = ''..'' then
        (if out \<noteq> [] \<and> last out \<noteq> ''..'' then butlast out
         else if rooted then out
         else out @ [e])
      else out @ [e])"

definition cleanElems :: "string \<Rightarrow> string list" where
  "cleanElems p = foldl (cleanStep (isRooted p)) [] (splitOn CHR ''/'' p)"

fun joinSep :: "string list \<Rightarrow> string" where
  "joinSep [] = []"
| "joinSep [e] = e"
| "joinSep (e # es) = e @ ''/'' @ joinSep es"

definition Clean :: "string \<Rightarrow> string" where
  "Clean p =
     (if isRooted p then ''/'' @ joinSep (cleanElems p)
      else if cleanElems p = [] then ''.''
      else joinSep (cleanElems p))"

text \<open>\<open>filepath.Join\<close>: empty elements before the first non-empty one are ignored, the
  rest is joined with the separator and cleaned; all empty gives the empty string.\<close>

definition Join :: "string list \<Rightarrow> string" where
  "Join elems =
     (case dropWhile (\<lambda>e. e = []) elems of [] \<Rightarrow> [] | es \<Rightarrow> Clean (joinSep es))"

text \<open>\<open>filepath.Dir\<close>: everything up to the last separator, cleaned.\<close>

definition Dir :: "string \<Rightarrow> string" where
  "Dir p = Clean (rev (dropWhile (\<lambda>c. c \<noteq> CHR ''/'') (rev p)))"

text \<open>
  Two notions about an entry name as the tar loop joins it to the target directory: a
  name has no \<open>..\<close> element; and the elements of a name that \<open>Clean\<close> keeps when none
  of them is \<open>..\<close>.
\<close>

definition noDotDot :: "string \<Rightarrow> bool" where
  "noDotDot name = (''..'' \<notin> set (splitOn CHR ''/'' name))"

definition nameElems :: "string \<Rightarrow> string list" where
  "nameElems name = filter (\<lambda>e. e \<noteq> [] \<and> e \<noteq> ''.'') (splitOn CHR ''/'' name)"

text \<open>A cleaned element list: no empty or \<open>.\<close> element, no separator inside an element,
  and \<open>..\<close> only in front, and only when the path is not rooted.\<close>

definition cleanList :: "bool \<Rightarrow> string list \<Rightarrow> bool" where
  "cleanList rooted es =
     (\<exists>k ns. es = replicate k ''..'' @ ns \<and> ''..'' \<notin> set ns \<and> (rooted \<longrightarrow> k = 0) \<and>
        (\<forall>e\<in>set ns. e \<noteq> [] \<and> e \<noteq> ''.'' \<and> CHR ''/'' \<notin> set e))"

section \<open>The home directory (internal/runtime/home.go)\<close>

text \<open>
  What \<open>ThinHome\<close> reads from the process environment: \<open>os.Getenv("THIN_HOME")\<close> (the
  empty string when the variable is unset), whether \<open>os.Stat(".thin")\<close> returns no
  error, and the results of \<open>os.Getwd\<close> and \<open>os.UserHomeDir\<close>, whose errors the code
  drops (their string is then empty).
\<close>

record Environ =
  getenvTHIN_HOME :: string
  statDotThinOk :: bool
  getwd :: string
  userHomeDir :: string

definition ThinHome :: "Environ \<Rightarrow> string" where
  "ThinHome env =
     (if getenvTHIN_HOME env \<noteq> [] then getenvTHIN_HOME env
      else if statDotThinOk env then Join [getwd env, ''.thin'']
      else Join [userHomeDir env, ''.thin''])"

text \<open>\<open>filepath.Join(ThinHome(), "providers")\<close> (\<open>ListProviders\<close>) and
  \<open>filepath.Join(ThinHome(), "providers", providerName)\<close> (\<open>PullProviderOCI\<close>, line 29).\<close>

definition providersDir :: "Environ \<Rightarrow> string" where
  "providersDir env = Join [ThinHome env, ''providers'']"

definition providerBaseDir :: "Environ \<Rightarrow> string \<Rightarrow> string" where
  "providerBaseDir env providerName = Join [ThinHome env, ''providers'', providerName]"

section \<open>A file system: what the os package does for the extractor\<close>

text \<open>
  The extractor's effects are calls of \<open>os.MkdirAll\<close>, \<open>os.Create\<close>, \<open>os.WriteFile\<close> and
  \<open>os.Chmod\<close>. They are modelled on a tree of directories and regular files of a Unix
  system, from the documentation of the os package: a path name resolves to its rooted
  flag and its cleaned elements; \<open>/\<close> and \<open>.\<close> always exist and are directories. The
  model has no symbolic links, no access-permission checks and no full disk, keeps no
  mode for a directory, and does not relate a relative name to the working directory.
\<close>

datatype Errno = ENOENT | ENOTDIR | EISDIR

datatype Node = DirNode | FileNode (fileData: string) (fileMode: "32 word")

record FS =
  nodes :: "bool \<times> string list \<rightharpoonup> Node"
  umask :: "32 word"

definition pathKey :: "string \<Rightarrow> bool \<times> string list" where
  "pathKey p = (isRooted p, cleanElems p)"

definition lookupNode :: "FS \<Rightarrow> bool \<times> string list \<Rightarrow> Node option" where
  "lookupNode fs k = (if snd k = [] then Some DirNode else nodes fs k)"

definition putNode :: "FS \<Rightarrow> bool \<times> string list \<Rightarrow> Node \<Rightarrow> FS" where
  "putNode fs k n = fs\<lparr>nodes := (nodes fs)(k \<mapsto> n)\<rparr>"

text \<open>
  \<open>os.MkdirAll\<close>: nothing to do when the path is a directory, \<open>ENOTDIR\<close> when it is a
  file; otherwise the parent first, then the directory itself. The elements are taken
  last first, so that the parent is the tail.
\<close>

fun mkdirAllUp :: "FS \<Rightarrow> bool \<Rightarrow> string list \<Rightarrow> Errno option \<times> FS" where
  "mkdirAllUp fs rooted [] = (None, fs)"
| "mkdirAllUp fs rooted (e # up) =
     (case lookupNode fs (rooted, rev (e # up)) of
        Some DirNode \<Rightarrow> (None, fs)
      | Some (FileNode _ _) \<Rightarrow> (Some ENOTDIR, fs)
      | None \<Rightarrow>
          (case mkdirAllUp fs rooted up of
             (Some err, fs') \<Rightarrow> (Some err, fs')
           | (None, fs') \<Rightarrow> (None, putNode fs' (rooted, rev (e # up)) DirNode)))"

definition os_MkdirAll :: "FS \<Rightarrow> string \<Rightarrow> 32 word \<Rightarrow> Errno option \<times> FS" where
  "os_MkdirAll fs p perm = mkdirAllUp fs (isRooted p) (rev (cleanElems p))"

text \<open>
  \<open>syscallMode\<close> of the os package: the nine permission bits of a \<open>FileMode\<close>, and the
  set-uid, set-gid and sticky bits where \<open>FileMode\<close> keeps them (bits 23, 22 and 20).
\<close>

definition syscallMode :: "32 word \<Rightarrow> 32 word" where
  "syscallMode i =
     (i AND 0x1FF)
       OR (if i AND 0x800000 \<noteq> 0 then 0x800 else 0)
       OR (if i AND 0x400000 \<noteq> 0 then 0x400 else 0)
       OR (if i AND 0x100000 \<noteq> 0 then 0x200 else 0)"

text \<open>
  \<open>os.OpenFile(name, O_CREATE|O_TRUNC|..., perm)\<close>: a directory cannot be opened for
  writing; an existing file is emptied and keeps its mode; a new file needs its parent
  directory and gets \<open>perm\<close> less the umask.
\<close>

definition openCreateTrunc :: "FS \<Rightarrow> string \<Rightarrow> 32 word \<Rightarrow> Errno option \<times> FS" where
  "openCreateTrunc fs p perm =
     (let k = pathKey p in
      case lookupNode fs k of
        Some DirNode \<Rightarrow> (Some EISDIR, fs)
      | Some (FileNode _ m) \<Rightarrow> (None, putNode fs k (FileNode [] m))
      | None \<Rightarrow>
          (case lookupNode fs (fst k, butlast (snd k)) of
             Some DirNode \<Rightarrow> (None, putNode fs k (FileNode [] (syscallMode perm AND NOT (umask fs))))
           | Some (FileNode _ _) \<Rightarrow> (Some ENOTDIR, fs)
           | None \<Rightarrow> (Some ENOENT, fs)))"

text \<open>\<open>os.Create(name)\<close> is \<open>OpenFile(name, O_RDWR|O_CREATE|O_TRUNC, 0666)\<close>.\<close>

definition os_Create :: "FS \<Rightarrow> string \<Rightarrow> Errno option \<times> FS" where
  "os_Create fs p = openCreateTrunc fs p 0x1B6"

text \<open>Writing to the open file: the bytes become the file's content.\<close>

definition writeOpenFile :: "FS \<Rightarrow> string \<Rightarrow> string \<Rightarrow> FS" where
  "writeOpenFile fs p bytes =
     (case nodes fs (pathKey p) of
        Some (FileNode _ m) \<Rightarrow> putNode fs (pathKey p) (FileNode bytes m)
      | _ \<Rightarrow> fs)"

definition os_WriteFile :: "FS \<Rightarrow> string \<Rightarrow> string \<Rightarrow> 32 word \<Rightarrow> Errno option \<times> FS" where
  "os_WriteFile fs p bytes perm =
     (case openCreateTrunc fs p perm of
        (Some err, fs') \<Rightarrow> (Some err, fs')
      | (None, fs') \<Rightarrow> (None, writeOpenFile fs' p bytes))"

definition os_Chmod :: "FS \<Rightarrow> string \<Rightarrow> 32 word \<Rightarrow> Errno option \<times> FS" where
  "os_Chmod fs p mode =
     (case lookupNode fs (pathKey p) of
        None \<Rightarrow> (Some ENOENT, fs)
      | Some DirNode \<Rightarrow> (None, fs)
      | Some (FileNode bytes _) \<Rightarrow> (None, putNode fs (pathKey p) (FileNode bytes (syscallMode mode))))"

section \<open>The content extractor (internal/runtime/oci.go, lines 336-448)\<close>

text \<open>
  What \<open>archive/tar\<close> hands to the loop: for each successful \<open>tr.Next()\<close> a header (its
  name, type flag and \<open>int64\<close> mode) and the bytes \<open>io.Copy\<close> reads from the entry, with
  a flag for a read that ends in an error instead of the end of the entry. The stream
  ends with \<open>io.EOF\<close>, or with another error (the flag of the pair).
\<close>

record TarEntry =
  Name :: string
  Typeflag :: char
  Mode :: "64 word"
  Data :: string
  DataErr :: bool

definition TypeReg :: char where
  "TypeReg = CHR ''0''"

definition TypeDir :: char where
  "TypeDir = CHR ''5''"

text \<open>
  The readers of the standard library are parameters: \<open>bytes.NewReader\<close>,
  \<open>gzip.NewReader\<close> (which fails on a bad header) and the entries that \<open>tar.NewReader\<close>
  yields from a reader. \<open>'r\<close> stands for \<open>io.Reader\<close>.
\<close>

record 'r Readers =
  bytes_NewReader :: "string \<Rightarrow> 'r"
  gzip_NewReader :: "'r \<Rightarrow> 'r option"
  tar_NewReader :: "'r \<Rightarrow> TarEntry list \<times> bool"

datatype ExtractError =
  OSError Errno
| GzipError          \<comment> \<open>"failed to create gzip reader"\<close>
| TarHeaderError     \<comment> \<open>"failed to read tar header"\<close>
| CopyError          \<comment> \<open>the error of \<open>io.Copy\<close>\<close>

text \<open>An \<open>if err := ...; err != nil { return err }\<close> step: the state is kept either way.\<close>

definition orReturn ::
  "Errno option \<times> FS \<Rightarrow> (FS \<Rightarrow> ExtractError option \<times> FS) \<Rightarrow> ExtractError option \<times> FS" where
  "orReturn r k = (case r of (Some err, fs) \<Rightarrow> (Some (OSError err), fs) | (None, fs) \<Rightarrow> k fs)"

text \<open>The body of the \<open>for\<close> loop of \<open>extractTarWithReader\<close>, after a successful
  \<open>tr.Next()\<close>.\<close>

definition extractEntry :: "FS \<Rightarrow> string \<Rightarrow> TarEntry \<Rightarrow> ExtractError option \<times> FS" where
  "extractEntry fs targetDir e =
     (let targetPath = Join [targetDir, Name e] in
      if Typeflag e = TypeDir then
        orReturn (os_MkdirAll fs targetPath 0x1ED) (\<lambda>fs1. (None, fs1))
      else if Typeflag e = TypeReg then
        orReturn (os_MkdirAll fs (Dir targetPath) 0x1ED) (\<lambda>fs1.
        orReturn (os_Create fs1 targetPath) (\<lambda>fs2.
          let fs3 = writeOpenFile fs2 targetPath (Data e) in
          if DataErr e then (Some CopyError, fs3)
          else orReturn (os_Chmod fs3 targetPath (ucast (Mode e))) (\<lambda>fs4. (None, fs4))))
      else (None, fs))"

fun extractEntries ::
  "FS \<Rightarrow> string \<Rightarrow> TarEntry list \<Rightarrow> bool \<Rightarrow> ExtractError option \<times> FS" where
  "extractEntries fs targetDir [] endsInError =
     (if endsInError then (Some TarHeaderError, fs) else (None, fs))"
| "extractEntries fs targetDir (e # es) endsInError =
     (case extractEntry fs targetDir e of
        (Some err, fs') \<Rightarrow> (Some err, fs')
      | (None, fs') \<Rightarrow> extractEntries fs' targetDir es endsInError)"

definition extractTarWithReader ::
  "'r Readers \<Rightarrow> FS \<Rightarrow> 'r \<Rightarrow> string \<Rightarrow> ExtractError option \<times> FS" where
  "extractTarWithReader rd fs reader targetDir =
     extractEntries fs targetDir (fst (tar_NewReader rd reader)) (snd (tar_NewReader rd reader))"

text \<open>\<open>extractTarGz\<close> and \<open>extractTar\<close> first read their \<open>bytes.Reader\<close> back into the
  bytes it was made from, which cannot fail.\<close>

definition extractTarGz ::
  "'r Readers \<Rightarrow> FS \<Rightarrow> string \<Rightarrow> string \<Rightarrow> ExtractError option \<times> FS" where
  "extractTarGz rd fs content targetDir =
     (case gzip_NewReader rd (bytes_NewReader rd content) of
        None \<Rightarrow> (Some GzipError, fs)
      | Some gz \<Rightarrow> extractTarWithReader rd fs gz targetDir)"

definition extractTar ::
  "'r Readers \<Rightarrow> FS \<Rightarrow> string \<Rightarrow> string \<Rightarrow> ExtractError option \<times> FS" where
  "extractTar rd fs content targetDir =
     extractTarWithReader rd fs (bytes_NewReader rd content) targetDir"

text \<open>\<open>len(data) >= 512\<close> and \<open>string(data[257:262]) == "ustar"\<close>.\<close>

definition isTar :: "string \<Rightarrow> bool" where
  "isTar bytes = (if length bytes < 512 then False else take 5 (drop 257 bytes) = ''ustar'')"

definition gzipMagic :: string where
  "gzipMagic = [CHR 0x1F, CHR 0x8B]"

text \<open>\<open>len(layerData) > 0 && layerData[0] >= 32 && layerData[0] < 127\<close>\<close>

definition startsPrintable :: "string \<Rightarrow> bool" where
  "startsPrintable bytes =
     (length bytes > 0 \<and> (32::nat) \<le> of_char (bytes ! 0) \<and> of_char (bytes ! 0) < (127::nat))"

definition extractLayerContent ::
  "'r Readers \<Rightarrow> FS \<Rightarrow> string \<Rightarrow> string \<Rightarrow> ExtractError option \<times> FS" where
  "extractLayerContent rd fs layerData targetDir =
     (if HasPrefix layerData gzipMagic then extractTarGz rd fs layerData targetDir
      else if isTar layerData then extractTar rd fs layerData targetDir
      else if length layerData > 4000000 then
        (let binPath = Join [targetDir, ''bin'', ''entrypoint''] in
         orReturn (os_MkdirAll fs (Dir binPath) 0x1ED) (\<lambda>fs1.
         orReturn (os_WriteFile fs1 binPath layerData 0x1ED) (\<lambda>fs2. (None, fs2))))
      else if startsPrintable layerData then
        orReturn (os_WriteFile fs (Join [targetDir, ''thin.provider.yaml'']) layerData 0x1A4)
          (\<lambda>fs1. (None, fs1))
      else (None, fs))"

section \<open>Progress reporting (status handler, internal/runtime/oci.go lines 184-196 and 295-333)\<close>

text \<open>
  The state that both implementations of the \<open>StatusHandler\<close> interface keep under
  their mutex: the progress record of each layer, keyed by the first 16 bytes of its
  digest, and for the terminal variant the key of the layer being drawn. Clock readings
  and printed lines are not part of the model. \<open>BytesRead\<close> is an \<open>int64\<close> counter of
  bytes read, far inside its range.
\<close>

record NodeProgress =
  npDescriptor :: Descriptor
  Status :: string
  BytesRead :: int

record StatusHandler =
  progress :: "string \<rightharpoonup> NodeProgress"
  currentNode :: string

text \<open>\<open>desc.Digest.String()[:16]\<close>, which panics on a digest shorter than 16 bytes.\<close>

definition digestStr :: "Descriptor \<Rightarrow> string option" where
  "digestStr desc = slice (Digest desc) 0 16"

definition OnNodeDownloading :: "StatusHandler \<Rightarrow> Descriptor \<Rightarrow> StatusHandler option" where
  "OnNodeDownloading h desc =
     (case digestStr desc of
        None \<Rightarrow> None
      | Some d \<Rightarrow>
          Some (h\<lparr>progress := (progress h)(d \<mapsto>
                     \<lparr>npDescriptor = desc, Status = ''Downloading'', BytesRead = 0\<rparr>),
                  currentNode := d\<rparr>))"

definition OnNodeDownloaded :: "StatusHandler \<Rightarrow> Descriptor \<Rightarrow> StatusHandler option" where
  "OnNodeDownloaded h desc =
     (case digestStr desc of
        None \<Rightarrow> None
      | Some d \<Rightarrow>
          (case progress h d of
             None \<Rightarrow> Some h
           | Some p \<Rightarrow> Some (h\<lparr>progress := (progress h)(d \<mapsto> p\<lparr>Status := ''Downloaded''\<rparr>)\<rparr>)))"

definition UpdateProgress :: "StatusHandler \<Rightarrow> string \<Rightarrow> int \<Rightarrow> StatusHandler" where
  "UpdateProgress h digest bytesRead =
     (case progress h digest of
        None \<Rightarrow> h
      | Some p \<Rightarrow> h\<lparr>progress := (progress h)(digest \<mapsto> p\<lparr>BytesRead := bytesRead\<rparr>)\<rparr>)"

text \<open>
  The byte-counting adapter \<open>progressTracker\<close> and its \<open>Read\<close>: \<open>n\<close> is the count the
  wrapped reader returned and \<open>now\<close> the reading of \<open>time.Now()\<close>. \<open>bytesRead\<close> is an
  \<open>int64\<close>: \<open>pt.bytesRead += int64(n)\<close> wraps, and \<open>sint\<close> is the value handed to
  \<open>UpdateProgress\<close>. Clock readings are integers of nanoseconds whose differences stay
  inside the range of a \<open>time.Duration\<close>.
\<close>

record progressTracker =
  digest :: string
  bytesRead :: "64 word"
  lastUpdate :: int
  updateFreq :: int

definition progressTracker_Read ::
  "progressTracker \<Rightarrow> StatusHandler \<Rightarrow> nat \<Rightarrow> int \<Rightarrow> progressTracker \<times> StatusHandler" where
  "progressTracker_Read pt handler n now =
     (if n > 0 then
        (let pt1 = pt\<lparr>bytesRead := bytesRead pt + word_of_nat n\<rparr> in
         if now - lastUpdate pt1 \<ge> updateFreq pt1
         then (pt1\<lparr>lastUpdate := now\<rparr>,
               UpdateProgress handler (digest pt1) (sint (bytesRead pt1)))
         else (pt1, handler))
      else (pt, handler))"

text \<open>
  \<open>trackedFetchAll\<close>, with \<open>content.FetchAll\<close> on the repository as the parameter
  \<open>fetchAll\<close>. The handler is an argument that the body never uses.
\<close>

definition trackedFetchAll ::
  "(Descriptor \<Rightarrow> 'e + string) \<Rightarrow> Descriptor \<Rightarrow> StatusHandler \<Rightarrow> ('e + string) \<times> StatusHandler" where
  "trackedFetchAll fetchAll layer handler =
     (case fetchAll layer of
        Inl err \<Rightarrow> (Inl err, handler)
      | Inr bytes \<Rightarrow> (Inr bytes, handler))"

text \<open>
  What a download worker does with one layer taken from the queue (lines 184-196); the
  second worker and the interleaving of the two are not modelled. \<open>None\<close> is a panic.
\<close>

definition downloadLayer ::
  "(Descriptor \<Rightarrow> 'e + string) \<Rightarrow> StatusHandler \<Rightarrow> Descriptor \<Rightarrow>
     (('e + string) \<times> StatusHandler) option" where
  "downloadLayer fetchAll handler layer =
     (case OnNodeDownloading handler layer of
        None \<Rightarrow> None
      | Some h1 \<Rightarrow>
          (case trackedFetchAll fetchAll layer h1 of
             (Inl err, h2) \<Rightarrow> Some (Inl err, h2)
           | (Inr bytes, h2) \<Rightarrow>
               (case OnNodeDownloaded h2 layer of
                  None \<Rightarrow> None
                | Some h3 \<Rightarrow> Some (Inr bytes, h3))))"

section \<open>Facts about the classification loop\<close>

lemma binaryMediaType_distinct:
  "binaryMediaType os arch \<noteq> emptyMediaType"
  "binaryMediaType os arch \<noteq> providerMediaType"
  "binaryMediaType os arch \<noteq> assetsMediaType"
  by (simp_all add: binaryMediaType_def binaryPrefix_def emptyMediaType_def
      providerMediaType_def assetsMediaType_def)

lemma roleMediaTypes_distinct:
  "providerMediaType \<noteq> emptyMediaType"
  "assetsMediaType \<noteq> emptyMediaType"
  "assetsMediaType \<noteq> providerMediaType"
  by (simp_all add: emptyMediaType_def providerMediaType_def assetsMediaType_def)

lemma classifyLoop_snoc:
  "classifyLoop b (ls @ [l]) = classifyStep b (classifyLoop b ls) l"
  by (simp add: classifyLoop_def)

lemma classifyLoop_provider:
  "providerLayer (classifyLoop b ls) = lastOpt (filter (\<lambda>l. MediaType l = providerMediaType) ls)"
proof (induction ls rule: rev_induct)
  case Nil
  show ?case by (simp add: classifyLoop_def noRoles_def lastOpt_def)
next
  case (snoc l ls)
  then show ?case
    using roleMediaTypes_distinct
    by (auto simp: classifyLoop_snoc classifyStep_def lastOpt_def)
qed

lemma classifyLoop_assets:
  "assetsLayer (classifyLoop b ls) = lastOpt (filter (\<lambda>l. MediaType l = assetsMediaType) ls)"
proof (induction ls rule: rev_induct)
  case Nil
  show ?case by (simp add: classifyLoop_def noRoles_def lastOpt_def)
next
  case (snoc l ls)
  then show ?case
    using roleMediaTypes_distinct
    by (auto simp: classifyLoop_snoc classifyStep_def lastOpt_def)
qed

lemma classifyLoop_binary:
  assumes "b \<noteq> emptyMediaType" "b \<noteq> providerMediaType" "b \<noteq> assetsMediaType"
  shows "binaryLayer (classifyLoop b ls) = lastOpt (filter (\<lambda>l. MediaType l = b) ls)"
proof (induction ls rule: rev_induct)
  case Nil
  show ?case by (simp add: classifyLoop_def noRoles_def lastOpt_def)
next
  case (snoc l ls)
  then show ?case
    using assms
    by (auto simp: classifyLoop_snoc classifyStep_def lastOpt_def)
qed

lemma lastOpt_None_iff: "lastOpt xs = None \<longleftrightarrow> xs = []"
  by (simp add: lastOpt_def)

lemma filter_empty_iff: "filter P xs = [] \<longleftrightarrow> (\<forall>x\<in>set xs. \<not> P x)"
  by (simp add: filter_empty_conv)

lemma classifyLoop_roles:
  "classifyLoop (binaryMediaType os arch) ls =
     \<lparr>providerLayer = lastOpt (filter (\<lambda>l. MediaType l = providerMediaType) ls),
      assetsLayer = lastOpt (filter (\<lambda>l. MediaType l = assetsMediaType) ls),
      binaryLayer = lastOpt (filter (\<lambda>l. MediaType l = binaryMediaType os arch) ls)\<rparr>"
  by (simp add: classifyLoop_provider classifyLoop_assets classifyLoop_binary
      binaryMediaType_distinct)

lemma lastOpt_single: "lastOpt [x] = Some x"
  by (simp add: lastOpt_def)

lemmas mediaType_defs = emptyMediaType_def providerMediaType_def assetsMediaType_def
  binaryMediaType_def binaryPrefix_def

lemma lastOpt_filter_Some: "lastOpt (filter P xs) = Some x \<Longrightarrow> P x"
proof -
  assume a: "lastOpt (filter P xs) = Some x"
  then have ne: "filter P xs \<noteq> []" and x: "x = last (filter P xs)"
    by (auto simp: lastOpt_def split: if_splits)
  from ne have "last (filter P xs) \<in> set (filter P xs)" by (rule last_in_set)
  with x show "P x" by simp
qed

lemma classifyLayers_legacy:
  assumes "lastOpt (filter (\<lambda>l. MediaType l = binaryMediaType os arch) layers) = None"
    and "lastOpt (filter (\<lambda>l. MediaType l = providerMediaType) layers) = P"
    and "lastOpt (filter (\<lambda>l. MediaType l = assetsMediaType) layers) = A"
    and "P \<noteq> None \<or> A \<noteq> None"
  shows "classifyLayers os arch layers =
     Inr \<lparr>roles = \<lparr>providerLayer = P, assetsLayer = A, binaryLayer = None\<rparr>,
          layersToDownload = filter (\<lambda>l. MediaType l \<noteq> emptyMediaType) layers,
          legacyFallback = True\<rparr>"
  using assms
  by (cases P; cases A) (simp_all add: classifyLayers_def Let_def classifyLoop_roles appendIfSet_def)

lemma classifyLayers_selected:
  assumes "lastOpt (filter (\<lambda>l. MediaType l = binaryMediaType os arch) layers) = Some b"
    and "lastOpt (filter (\<lambda>l. MediaType l = providerMediaType) layers) = P"
    and "lastOpt (filter (\<lambda>l. MediaType l = assetsMediaType) layers) = A"
    and "P \<noteq> None \<or> A \<noteq> None"
  shows "classifyLayers os arch layers =
     Inr \<lparr>roles = \<lparr>providerLayer = P, assetsLayer = A, binaryLayer = Some b\<rparr>,
          layersToDownload = appendIfSet (appendIfSet (appendIfSet [] P) A) (Some b),
          legacyFallback = False\<rparr>"
  using assms
  by (cases P; cases A) (simp_all add: classifyLayers_def Let_def classifyLoop_roles appendIfSet_def)

lemma classifyLayers_error:
  assumes "lastOpt (filter (\<lambda>l. MediaType l = providerMediaType) layers) = None"
    and "lastOpt (filter (\<lambda>l. MediaType l = assetsMediaType) layers) = None"
  shows "\<exists>e. classifyLayers os arch layers = Inl e"
  using assms
  by (simp add: classifyLayers_def Let_def classifyLoop_roles)

lemma length_filter_selected:
  "length (filter Q (appendIfSet (appendIfSet (appendIfSet [] P) A) B)) =
     (case P of None \<Rightarrow> 0 | Some d \<Rightarrow> if Q d then 1 else 0) +
     (case A of None \<Rightarrow> 0 | Some d \<Rightarrow> if Q d then 1 else 0) +
     (case B of None \<Rightarrow> 0 | Some d \<Rightarrow> if Q d then 1 else (0::nat))"
  by (simp add: appendIfSet_def split: option.splits)

lemma selected_at_most_one:
  assumes P: "\<And>d. P = Some d \<Longrightarrow> MediaType d = mp"
    and A: "\<And>d. A = Some d \<Longrightarrow> MediaType d = ma"
    and B: "\<And>d. B = Some d \<Longrightarrow> MediaType d = mb"
    and d: "mp \<noteq> ma" "mp \<noteq> mb" "ma \<noteq> mb"
  shows "length (filter (\<lambda>l. MediaType l = m)
            (appendIfSet (appendIfSet (appendIfSet [] P) A) B)) \<le> 1"
proof -
  have p: "(case P of None \<Rightarrow> 0 | Some d \<Rightarrow> if MediaType d = m then 1 else (0::nat)) \<le> (if m = mp then 1 else 0)"
    using P by (cases P) auto
  have a: "(case A of None \<Rightarrow> 0 | Some d \<Rightarrow> if MediaType d = m then 1 else (0::nat)) \<le> (if m = ma then 1 else 0)"
    using A by (cases A) auto
  have b: "(case B of None \<Rightarrow> 0 | Some d \<Rightarrow> if MediaType d = m then 1 else (0::nat)) \<le> (if m = mb then 1 else 0)"
    using B by (cases B) auto
  have "(if m = mp then 1 else 0) + (if m = ma then 1 else 0) + (if m = mb then 1 else (0::nat)) \<le> 1"
    using d by auto
  with p a b show ?thesis
    unfolding length_filter_selected by linarith
qed

section \<open>Claims about the classification\<close>

text \<open>
  C1. A manifest with exactly one layer of the provider media type, exactly one of the
  assets media type and exactly one of the binary media type of the current platform,
  and any other layers besides (other platforms' binaries, empty placeholders), is
  classified without error: the download list is those three layers in the order
  provider, assets, platform binary, and the legacy fallback is not taken.
\<close>

theorem C1_one_of_each_selected:
  assumes "filter (\<lambda>l. MediaType l = providerMediaType) layers = [p]"
    and "filter (\<lambda>l. MediaType l = assetsMediaType) layers = [a]"
    and "filter (\<lambda>l. MediaType l = binaryMediaType currentOS currentArch) layers = [b]"
  shows "classifyLayers currentOS currentArch layers =
           Inr \<lparr>roles = \<lparr>providerLayer = Some p, assetsLayer = Some a, binaryLayer = Some b\<rparr>,
                layersToDownload = [p, a, b], legacyFallback = False\<rparr>"
  using assms
  by (simp add: classifyLayers_def Let_def classifyLoop_roles lastOpt_single appendIfSet_def)

text \<open>C1 at the spec's scenario: five layers, on a darwin/arm64 host.\<close>

theorem C1_witness:
  "classifyLayers ''darwin'' ''arm64''
     [mkLayer ''application/vnd.oci.empty.v1+json'' ''sha256:00'' 2,
      mkLayer ''application/vnd.sourceplane.provider.v1'' ''sha256:01'' 4470,
      mkLayer ''application/vnd.sourceplane.assets.v1'' ''sha256:02'' 3010,
      mkLayer ''application/vnd.sourceplane.bin.darwin-arm64'' ''sha256:03'' 4400000,
      mkLayer ''application/vnd.sourceplane.bin.linux-amd64'' ''sha256:04'' 4400000]
   = Inr \<lparr>roles = \<lparr>providerLayer = Some (mkLayer ''application/vnd.sourceplane.provider.v1'' ''sha256:01'' 4470),
                      assetsLayer = Some (mkLayer ''application/vnd.sourceplane.assets.v1'' ''sha256:02'' 3010),
                      binaryLayer = Some (mkLayer ''application/vnd.sourceplane.bin.darwin-arm64'' ''sha256:03'' 4400000)\<rparr>,
           layersToDownload =
             [mkLayer ''application/vnd.sourceplane.provider.v1'' ''sha256:01'' 4470,
              mkLayer ''application/vnd.sourceplane.assets.v1'' ''sha256:02'' 3010,
              mkLayer ''application/vnd.sourceplane.bin.darwin-arm64'' ''sha256:03'' 4400000],
           legacyFallback = False\<rparr>"
  by (rule C1_one_of_each_selected) (simp_all add: mediaType_defs)

text \<open>
  C2, as the code has it. When no layer has the binary media type of the current
  platform and the manifest has at least one provider or assets layer, the
  classification takes the legacy fallback, and the download list is every layer that is
  not the empty placeholder, in manifest order.
\<close>

theorem C2_legacy_fallback:
  assumes "\<forall>l\<in>set layers. MediaType l \<noteq> binaryMediaType currentOS currentArch"
    and "\<exists>l\<in>set layers. MediaType l = providerMediaType \<or> MediaType l = assetsMediaType"
  shows "\<exists>r. classifyLayers currentOS currentArch layers = Inr r \<and> legacyFallback r \<and>
           layersToDownload r = filter (\<lambda>l. MediaType l \<noteq> emptyMediaType) layers"
proof -
  let ?P = "filter (\<lambda>l. MediaType l = providerMediaType) layers"
  let ?A = "filter (\<lambda>l. MediaType l = assetsMediaType) layers"
  from assms(1) have B: "filter (\<lambda>l. MediaType l = binaryMediaType currentOS currentArch) layers = []"
    by (simp add: filter_empty_iff)
  from assms(2) have PA: "?P \<noteq> [] \<or> ?A \<noteq> []"
    by (auto simp: filter_empty_iff)
  then show ?thesis
    by (auto simp: classifyLayers_def Let_def classifyLoop_roles B lastOpt_def appendIfSet_def)
qed

text \<open>C2 at the spec's scenario on a linux/arm64 host: all four non-placeholder layers.\<close>

theorem C2_witness:
  "\<exists>r. classifyLayers ''linux'' ''arm64''
     [mkLayer ''application/vnd.oci.empty.v1+json'' ''sha256:00'' 2,
      mkLayer ''application/vnd.sourceplane.provider.v1'' ''sha256:01'' 4470,
      mkLayer ''application/vnd.sourceplane.assets.v1'' ''sha256:02'' 3010,
      mkLayer ''application/vnd.sourceplane.bin.darwin-arm64'' ''sha256:03'' 4400000,
      mkLayer ''application/vnd.sourceplane.bin.linux-amd64'' ''sha256:04'' 4400000] = Inr r
     \<and> legacyFallback r
     \<and> layersToDownload r =
         [mkLayer ''application/vnd.sourceplane.provider.v1'' ''sha256:01'' 4470,
          mkLayer ''application/vnd.sourceplane.assets.v1'' ''sha256:02'' 3010,
          mkLayer ''application/vnd.sourceplane.bin.darwin-arm64'' ''sha256:03'' 4400000,
          mkLayer ''application/vnd.sourceplane.bin.linux-amd64'' ''sha256:04'' 4400000]"
  using C2_legacy_fallback [of
     "[mkLayer ''application/vnd.oci.empty.v1+json'' ''sha256:00'' 2,
      mkLayer ''application/vnd.sourceplane.provider.v1'' ''sha256:01'' 4470,
      mkLayer ''application/vnd.sourceplane.assets.v1'' ''sha256:02'' 3010,
      mkLayer ''application/vnd.sourceplane.bin.darwin-arm64'' ''sha256:03'' 4400000,
      mkLayer ''application/vnd.sourceplane.bin.linux-amd64'' ''sha256:04'' 4400000]"
     "''linux''" "''arm64''"]
  by (simp add: mediaType_defs)

text \<open>
  C2 as stated fails without a provider or an assets layer: a manifest whose only layer
  is another platform's binary has no layer of the current platform's binary media type,
  and the classification returns an error instead of falling back.
\<close>

theorem C2_counterexample:
  "MediaType (mkLayer ''application/vnd.sourceplane.bin.darwin-arm64'' ''sha256:03'' 4400000)
     \<noteq> binaryMediaType ''linux'' ''arm64''
   \<and> classifyLayers ''linux'' ''arm64''
       [mkLayer ''application/vnd.sourceplane.bin.darwin-arm64'' ''sha256:03'' 4400000]
     = Inl NoCompatibleLayers"
  by (simp add: classifyLayers_def classifyLoop_def classifyStep_def noRoles_def appendIfSet_def
      HasPrefix_def mediaType_defs)

text \<open>
  C3. A manifest with no layer of the provider media type and no layer of the assets
  media type makes the classification return an error, whatever other layers it has:
  the function returns before the download queue is built.
\<close>

theorem C3_no_provider_no_assets_fails:
  assumes "\<forall>l\<in>set layers. MediaType l \<noteq> providerMediaType \<and> MediaType l \<noteq> assetsMediaType"
  shows "\<exists>e. classifyLayers currentOS currentArch layers = Inl e"
proof -
  let ?st = "classifyLoop (binaryMediaType currentOS currentArch) layers"
  from assms have "providerLayer ?st = None" "assetsLayer ?st = None"
    by (simp_all add: classifyLoop_provider classifyLoop_assets lastOpt_None_iff filter_empty_iff)
  then show ?thesis
    by (simp add: classifyLayers_def Let_def)
qed

text \<open>C3 at a manifest that has the platform binary and an unrelated layer only.\<close>

theorem C3_witness:
  "\<exists>e. classifyLayers ''linux'' ''amd64''
     [\<lparr>MediaType = ''application/vnd.sourceplane.bin.linux-amd64'', Digest = ''sha256:01'', Size = 4400000\<rparr>,
      \<lparr>MediaType = ''application/vnd.example.docs'', Digest = ''sha256:02'', Size = 10\<rparr>] = Inl e"
  by (rule C3_no_provider_no_assets_fails) (simp add: providerMediaType_def assetsMediaType_def)

text \<open>
  C9, as the code has it. Each role variable ends as the last layer of its media type in
  manifest order; the classification fails only when the manifest has neither a provider
  nor an assets layer, so never because of a duplicate. When the legacy fallback is not
  taken, the download list is the selected role layers and has at most one layer of each
  role media type; when it is taken, the download list is every layer that is not the
  empty placeholder, duplicates included.
\<close>

theorem C9_last_duplicate_wins:
  "case classifyLayers currentOS currentArch layers of
     Inl e \<Rightarrow>
       filter (\<lambda>l. MediaType l = providerMediaType) layers = [] \<and>
       filter (\<lambda>l. MediaType l = assetsMediaType) layers = []
   | Inr r \<Rightarrow>
       providerLayer (roles r) = lastOpt (filter (\<lambda>l. MediaType l = providerMediaType) layers) \<and>
       assetsLayer (roles r) = lastOpt (filter (\<lambda>l. MediaType l = assetsMediaType) layers) \<and>
       binaryLayer (roles r) =
         lastOpt (filter (\<lambda>l. MediaType l = binaryMediaType currentOS currentArch) layers) \<and>
       (if legacyFallback r
        then binaryLayer (roles r) = None \<and>
             layersToDownload r = filter (\<lambda>l. MediaType l \<noteq> emptyMediaType) layers
        else layersToDownload r =
               appendIfSet (appendIfSet (appendIfSet [] (providerLayer (roles r)))
                 (assetsLayer (roles r))) (binaryLayer (roles r)) \<and>
             length (filter (\<lambda>l. MediaType l = providerMediaType) (layersToDownload r)) \<le> 1 \<and>
             length (filter (\<lambda>l. MediaType l = assetsMediaType) (layersToDownload r)) \<le> 1 \<and>
             length (filter (\<lambda>l. MediaType l = binaryMediaType currentOS currentArch)
               (layersToDownload r)) \<le> 1)"
proof -
  let ?b = "binaryMediaType currentOS currentArch"
  let ?P = "lastOpt (filter (\<lambda>l. MediaType l = providerMediaType) layers)"
  let ?A = "lastOpt (filter (\<lambda>l. MediaType l = assetsMediaType) layers)"
  let ?B = "lastOpt (filter (\<lambda>l. MediaType l = ?b) layers)"
  have mtP: "MediaType d = providerMediaType" if "?P = Some d" for d
    using lastOpt_filter_Some [OF that] .
  have mtA: "MediaType d = assetsMediaType" if "?A = Some d" for d
    using lastOpt_filter_Some [OF that] .
  have mtB: "MediaType d = ?b" if "?B = Some d" for d
    using lastOpt_filter_Some [OF that] .
  have one: "length (filter (\<lambda>l. MediaType l = m)
      (appendIfSet (appendIfSet (appendIfSet [] ?P) ?A) ?B)) \<le> 1" for m
    by (rule selected_at_most_one [OF mtP mtA mtB])
      (simp_all add: binaryMediaType_distinct roleMediaTypes_distinct
        binaryMediaType_distinct [symmetric] roleMediaTypes_distinct [symmetric])
  show ?thesis
  proof (cases "?P = None \<and> ?A = None")
    case True
    then obtain e where "classifyLayers currentOS currentArch layers = Inl e"
      using classifyLayers_error by blast
    with True show ?thesis
      by (simp add: lastOpt_None_iff)
  next
    case False
    then have PA: "?P \<noteq> None \<or> ?A \<noteq> None" by simp
    show ?thesis
    proof (cases ?B)
      case None
      from classifyLayers_legacy [OF None refl refl PA] show ?thesis
        by (simp add: None)
    next
      case (Some b)
      from classifyLayers_selected [OF Some refl refl PA] one show ?thesis
        by (simp add: Some)
    qed
  qed
qed

text \<open>C9 at a manifest with two provider layers and two platform binaries.\<close>

theorem C9_witness:
  "classifyLayers ''linux'' ''amd64''
     [mkLayer ''application/vnd.sourceplane.provider.v1'' ''sha256:01'' 10,
      mkLayer ''application/vnd.sourceplane.provider.v1'' ''sha256:02'' 20,
      mkLayer ''application/vnd.sourceplane.bin.linux-amd64'' ''sha256:03'' 30,
      mkLayer ''application/vnd.sourceplane.bin.linux-amd64'' ''sha256:04'' 40]
   = Inr \<lparr>roles = \<lparr>providerLayer = Some (mkLayer ''application/vnd.sourceplane.provider.v1'' ''sha256:02'' 20),
                      assetsLayer = None,
                      binaryLayer = Some (mkLayer ''application/vnd.sourceplane.bin.linux-amd64'' ''sha256:04'' 40)\<rparr>,
           layersToDownload =
             [mkLayer ''application/vnd.sourceplane.provider.v1'' ''sha256:02'' 20,
              mkLayer ''application/vnd.sourceplane.bin.linux-amd64'' ''sha256:04'' 40],
           legacyFallback = False\<rparr>"
proof -
  let ?ls = "[mkLayer ''application/vnd.sourceplane.provider.v1'' ''sha256:01'' 10,
      mkLayer ''application/vnd.sourceplane.provider.v1'' ''sha256:02'' 20,
      mkLayer ''application/vnd.sourceplane.bin.linux-amd64'' ''sha256:03'' 30,
      mkLayer ''application/vnd.sourceplane.bin.linux-amd64'' ''sha256:04'' 40]"
  obtain r where r: "classifyLayers ''linux'' ''amd64'' ?ls = Inr r"
    by (simp add: classifyLayers_def classifyLoop_def classifyStep_def noRoles_def appendIfSet_def
      HasPrefix_def mediaType_defs)
  have nl: "\<not> legacyFallback r"
    using r by (auto simp add: classifyLayers_def classifyLoop_def classifyStep_def noRoles_def appendIfSet_def
      HasPrefix_def mediaType_defs)
  from C9_last_duplicate_wins [where currentOS = "''linux''" and currentArch = "''amd64''" and layers = ?ls]
  have "roles r = \<lparr>providerLayer = Some (mkLayer ''application/vnd.sourceplane.provider.v1'' ''sha256:02'' 20),
                      assetsLayer = None,
                      binaryLayer = Some (mkLayer ''application/vnd.sourceplane.bin.linux-amd64'' ''sha256:04'' 40)\<rparr>"
    and "layersToDownload r =  [mkLayer ''application/vnd.sourceplane.provider.v1'' ''sha256:02'' 20,
              mkLayer ''application/vnd.sourceplane.bin.linux-amd64'' ''sha256:04'' 40]"
    by (simp_all add: r nl lastOpt_def appendIfSet_def mediaType_defs)
  with nl r show ?thesis by simp
qed

text \<open>
  C9 as stated fails in the legacy fallback: with two provider layers and no platform
  binary, both provider layers are in the download list.
\<close>

theorem C9_counterexample:
  "classifyLayers ''linux'' ''amd64''
     [mkLayer ''application/vnd.sourceplane.provider.v1'' ''sha256:01'' 10,
      mkLayer ''application/vnd.sourceplane.provider.v1'' ''sha256:02'' 20]
   = Inr \<lparr>roles = \<lparr>providerLayer = Some (mkLayer ''application/vnd.sourceplane.provider.v1'' ''sha256:02'' 20),
                      assetsLayer = None, binaryLayer = None\<rparr>,
           layersToDownload =
             [mkLayer ''application/vnd.sourceplane.provider.v1'' ''sha256:01'' 10,
              mkLayer ''application/vnd.sourceplane.provider.v1'' ''sha256:02'' 20],
           legacyFallback = True\<rparr>
   \<and> MediaType (mkLayer ''application/vnd.sourceplane.provider.v1'' ''sha256:01'' 10)
       = providerMediaType
   \<and> MediaType (mkLayer ''application/vnd.sourceplane.provider.v1'' ''sha256:02'' 20)
       = providerMediaType"
  by (simp add: classifyLayers_def classifyLoop_def classifyStep_def noRoles_def appendIfSet_def
      HasPrefix_def mediaType_defs)

section \<open>Claims about the string helpers\<close>

lemma slice_in_range:
  assumes "0 \<le> i" "i \<le> int (length s) - int (length substr)"
  shows "slice s i (i + int (length substr)) = Some (take (length substr) (drop (nat i) s))"
  using assms by (simp add: slice_def)

lemma occursAt_iff:
  assumes "0 \<le> i" "i \<le> int (length s) - int (length substr)"
  shows "take (length substr) (drop (nat i) s) = substr \<longleftrightarrow> occursAt s substr (nat i)"
  using assms by (auto simp: occursAt_def)

lemma occursAt_bound: "occursAt s substr j \<Longrightarrow> int j \<le> int (length s) - int (length substr)"
  by (simp add: occursAt_def)

lemma containsLoop_correct:
  "0 \<le> i \<Longrightarrow>
   containsLoop s substr i = Some (\<exists>j. nat i \<le> j \<and> occursAt s substr j)"
proof (induction s substr i rule: containsLoop.induct)
  case (1 s substr i)
  show ?case
  proof (cases "i < int (length s) - int (length substr) + 1")
    case False
    then have "\<not> (\<exists>j. nat i \<le> j \<and> occursAt s substr j)"
      using occursAt_bound [of s substr] "1.prems" by fastforce
    with False show ?thesis
      by (subst containsLoop.simps) simp
  next
    case True
    with "1.prems" have r: "0 \<le> i" "i \<le> int (length s) - int (length substr)" by simp_all
    note sl = slice_in_range [OF r]
    show ?thesis
    proof (cases "take (length substr) (drop (nat i) s) = substr")
      case hit: True
      then have "occursAt s substr (nat i)" using occursAt_iff [OF r] by simp
      then have "\<exists>j. nat i \<le> j \<and> occursAt s substr j" by blast
      with True hit sl show ?thesis
        by (subst containsLoop.simps) simp
    next
      case miss: False
      then have no: "\<not> occursAt s substr (nat i)" using occursAt_iff [OF r] by simp
      have IH: "containsLoop s substr (i + 1) = Some (\<exists>j. nat (i + 1) \<le> j \<and> occursAt s substr j)"
        using "1.IH" [OF True sl miss] r by simp
      have "(\<exists>j. nat (i + 1) \<le> j \<and> occursAt s substr j) = (\<exists>j. nat i \<le> j \<and> occursAt s substr j)"
      proof -
        have "nat (i + 1) = Suc (nat i)" using r by simp
        then show ?thesis using no
          by (metis Suc_leD Suc_leI le_neq_implies_less)
      qed
      with IH True miss sl show ?thesis
        by (subst containsLoop.simps) simp
    qed
  qed
qed

lemma strings_Contains_iff: "strings_Contains s substr \<longleftrightarrow> (\<exists>j. occursAt s substr j)"
proof -
  have "j \<le> length s" if "occursAt s substr j" for j
    using that by (simp add: occursAt_def)
  then show ?thesis
    by (auto simp: strings_Contains_def)
qed

lemma contains_correct: "contains s substr = Some (strings_Contains s substr)"
  using containsLoop_correct [of 0 s substr]
  by (simp add: contains_def strings_Contains_iff)

lemma occursAt_sublist: "(\<exists>j. occursAt s substr j) \<longleftrightarrow> sublist substr s"
proof
  assume "\<exists>j. occursAt s substr j"
  then obtain j where j: "j + length substr \<le> length s" "take (length substr) (drop j s) = substr"
    by (auto simp: occursAt_def)
  have "s = take j s @ take (length substr) (drop j s) @ drop (length substr) (drop j s)"
    by (simp only: append_take_drop_id)
  with j show "sublist substr s"
    unfolding sublist_def by metis
next
  assume "sublist substr s"
  then obtain ps ss where "s = ps @ substr @ ss" by (auto simp: sublist_def)
  then have "occursAt s substr (length ps)" by (simp add: occursAt_def)
  then show "\<exists>j. occursAt s substr j" ..
qed


lemma lastIndexLoop_correct:
  "0 \<le> i \<Longrightarrow>
   lastIndexLoop s substr i lst =
     Some (if \<exists>j. nat i \<le> j \<and> occursAt s substr j
           then int (Max {j. nat i \<le> j \<and> occursAt s substr j}) else lst)"
proof (induction s substr i lst rule: lastIndexLoop.induct)
  case (1 s substr i lst)
  let ?S = "\<lambda>k. {j. k \<le> j \<and> occursAt s substr j}"
  have fin: "finite (?S k)" for k
  proof (rule finite_subset)
    show "?S k \<subseteq> {..length s}" by (auto simp: occursAt_def)
  qed simp
  show ?case
  proof (cases "i \<le> int (length s) - int (length substr)")
    case False
    then have "\<not> (\<exists>j. nat i \<le> j \<and> occursAt s substr j)"
      using occursAt_bound [of s substr] "1.prems" by fastforce
    with False show ?thesis
      by (subst lastIndexLoop.simps) auto
  next
    case True
    with "1.prems" have r: "0 \<le> i" "i \<le> int (length s) - int (length substr)" by simp_all
    note sl = slice_in_range [OF r]
    have suc: "nat (i + 1) = Suc (nat i)" using r by simp
    define X where "X = (if take (length substr) (drop (nat i) s) = substr then i else lst)"
    have IH: "lastIndexLoop s substr (i + 1) X =
        Some (if \<exists>j. Suc (nat i) \<le> j \<and> occursAt s substr j
           then int (Max (?S (Suc (nat i)))) else X)"
    proof -
      have "0 \<le> i + 1" using r by simp
      from "1.IH" [OF True sl this] show ?thesis unfolding suc X_def .
    qed
    have step: "lastIndexLoop s substr i lst = lastIndexLoop s substr (i + 1) X"
      unfolding X_def using True sl by (subst lastIndexLoop.simps) simp
    have split: "?S (nat i) = (if occursAt s substr (nat i) then {nat i} else {}) \<union> ?S (Suc (nat i))"
      by (auto simp: le_Suc_eq Suc_le_eq dest: le_neq_implies_less)
    show ?thesis
    proof (cases "\<exists>j. Suc (nat i) \<le> j \<and> occursAt s substr j")
      case later: True
      then have ne: "?S (Suc (nat i)) \<noteq> {}" by blast
      have ex: "\<exists>j. nat i \<le> j \<and> occursAt s substr j" using later Suc_leD by blast
      have "Max (?S (nat i)) = Max (?S (Suc (nat i)))"
      proof (cases "occursAt s substr (nat i)")
        case True
        have "Max (?S (nat i)) = max (nat i) (Max (?S (Suc (nat i))))"
          using True fin ne by (simp add: split)
        moreover have "nat i \<le> Max (?S (Suc (nat i)))"
          using Max_in [OF fin ne] by simp
        ultimately show ?thesis by simp
      next
        case False
        then show ?thesis by (simp add: split)
      qed
      then show ?thesis
        by (simp add: step IH later ex)
    next
      case nolater: False
      then have emp: "?S (Suc (nat i)) = {}" by blast
      show ?thesis
      proof (cases "occursAt s substr (nat i)")
        case True
        have "?S (nat i) = {nat i} \<union> ?S (Suc (nat i))" using True split by simp
        then have single: "?S (nat i) = {nat i}" unfolding emp by simp
        have ex: "\<exists>j. nat i \<le> j \<and> occursAt s substr j" using True by blast
        have hit: "take (length substr) (drop (nat i) s) = substr"
          using True occursAt_iff [OF r] by simp
        have "lastIndexLoop s substr i lst = Some X"
          by (simp add: step IH nolater)
        moreover have "X = i" by (simp add: X_def hit)
        ultimately have "lastIndexLoop s substr i lst = Some i"
          by simp
        moreover have "int (Max (?S (nat i))) = i"
          using r by (simp add: single)
        ultimately show ?thesis
          by (simp add: ex)
      next
        case False
        then have noex: "\<not> (\<exists>j. nat i \<le> j \<and> occursAt s substr j)"
          using nolater by (metis Suc_leI le_neq_implies_less)
        have miss: "take (length substr) (drop (nat i) s) \<noteq> substr"
          using False occursAt_iff [OF r] by simp
        have "lastIndexLoop s substr i lst = Some X"
          by (simp add: step IH nolater)
        moreover have "X = lst" by (simp add: X_def miss)
        ultimately have "lastIndexLoop s substr i lst = Some lst"
          by simp
        then show ?thesis
          by (simp add: noex)
      qed
    qed
  qed
qed

lemma lastIndexOf_correct: "lastIndexOf s substr = Some (strings_LastIndex s substr)"
proof -
  have set_eq: "{j. nat 0 \<le> j \<and> occursAt s substr j} = Set.filter (occursAt s substr) {0..length s}"
    by (auto simp: occursAt_def)
  have ex_eq: "(\<exists>j. nat 0 \<le> j \<and> occursAt s substr j) = strings_Contains s substr"
    by (simp add: strings_Contains_iff)
  have "lastIndexOf s substr = lastIndexLoop s substr 0 (- 1)"
    by (simp add: lastIndexOf_def)
  also have "\<dots> = Some (if \<exists>j. nat 0 \<le> j \<and> occursAt s substr j
           then int (Max {j. nat 0 \<le> j \<and> occursAt s substr j}) else - 1)"
    by (rule lastIndexLoop_correct) simp
  also have "\<dots> = Some (strings_LastIndex s substr)"
    unfolding set_eq ex_eq strings_LastIndex_def ..
  finally show ?thesis .
qed

text \<open>
  C10. For all strings, \<open>contains\<close> returns (without a slice panic) what
  \<open>strings.Contains\<close> returns, which is whether \<open>substr\<close> occurs as a contiguous
  part of \<open>s\<close>, true for the empty \<open>substr\<close>; and \<open>lastIndexOf\<close> returns what
  \<open>strings.LastIndex\<close> returns, the greatest index at which \<open>substr\<close> occurs, or
  \<open>-1\<close> when it does not occur.
\<close>

theorem C10_helpers_agree_with_strings:
  "contains s substr = Some (strings_Contains s substr) \<and>
   lastIndexOf s substr = Some (strings_LastIndex s substr) \<and>
   strings_Contains s substr = sublist substr s \<and>
   strings_Contains s []"
proof -
  have sub: "strings_Contains s t = sublist t s" for t
    by (simp add: strings_Contains_iff occursAt_sublist)
  have "strings_Contains s []"
    by (simp add: sub)
  with sub [of substr] show ?thesis
    by (simp add: contains_correct lastIndexOf_correct)
qed

text \<open>C10 at the separators the reference normaliser looks for.\<close>

theorem C10_witness:
  "contains ''io/lite:v1'' ''/'' = Some True \<and>
   strings_Contains ''io/lite:v1'' ''/'' \<and>
   lastIndexOf ''h:5000/x:v1'' '':'' = Some 8 \<and>
   strings_LastIndex ''h:5000/x:v1'' '':'' = 8 \<and>
   lastIndexOf ''lite'' '':'' = Some (- 1) \<and>
   strings_LastIndex ''lite'' '':'' = - 1"
proof -
  have a: "contains ''io/lite:v1'' ''/'' = Some True"
    by (simp add: contains_def containsLoop.simps slice_def)
  have b: "lastIndexOf ''h:5000/x:v1'' '':'' = Some 8"
    by (simp add: lastIndexOf_def lastIndexLoop.simps slice_def)
  have c: "lastIndexOf ''lite'' '':'' = Some (- 1)"
    by (simp add: lastIndexOf_def lastIndexLoop.simps slice_def)
  from C10_helpers_agree_with_strings [of "''io/lite:v1''" "''/''"]
    C10_helpers_agree_with_strings [of "''h:5000/x:v1''" "'':''"]
    C10_helpers_agree_with_strings [of "''lite''" "'':''"]
  show ?thesis
    by (simp add: a b c)
qed

section \<open>Claims about the home directory\<close>

lemmas path_defs = Join_def Clean_def cleanElems_def cleanStep_def isRooted_def Dir_def pathKey_def

text \<open>
  C7, as the code has it. The home directory, under which the providers root
  \<open>providers\<close> lies, has three sources: the value of \<open>THIN_HOME\<close> when it is set and
  not empty; otherwise \<open>.thin\<close> under the working directory when \<open>.thin\<close> exists there;
  otherwise \<open>.thin\<close> under the user's home directory.
\<close>

theorem C7_ThinHome_three_sources:
  "(getenvTHIN_HOME env \<noteq> [] \<longrightarrow> ThinHome env = getenvTHIN_HOME env) \<and>
   (getenvTHIN_HOME env = [] \<and> statDotThinOk env \<longrightarrow>
      ThinHome env = Join [getwd env, ''.thin'']) \<and>
   (getenvTHIN_HOME env = [] \<and> \<not> statDotThinOk env \<longrightarrow>
      ThinHome env = Join [userHomeDir env, ''.thin'']) \<and>
   providersDir env = Join [ThinHome env, ''providers'']"
  by (simp add: ThinHome_def providersDir_def)

text \<open>C7 at one environment for each of the three sources.\<close>

theorem C7_witness:
  "ThinHome \<lparr>getenvTHIN_HOME = ''/opt/thin'', statDotThinOk = True,
             getwd = ''/work'', userHomeDir = ''/home/u''\<rparr> = ''/opt/thin'' \<and>
   ThinHome \<lparr>getenvTHIN_HOME = [], statDotThinOk = True,
             getwd = ''/work'', userHomeDir = ''/home/u''\<rparr> = ''/work/.thin'' \<and>
   ThinHome \<lparr>getenvTHIN_HOME = [], statDotThinOk = False,
             getwd = ''/work'', userHomeDir = ''/home/u''\<rparr> = ''/home/u/.thin'' \<and>
   providersDir \<lparr>getenvTHIN_HOME = [], statDotThinOk = False,
             getwd = ''/work'', userHomeDir = ''/home/u''\<rparr> = ''/home/u/.thin/providers''"
proof -
  have j: "Join [''/work'', ''.thin''] = ''/work/.thin''"
    "Join [''/home/u'', ''.thin''] = ''/home/u/.thin''"
    "Join [''/home/u/.thin'', ''providers''] = ''/home/u/.thin/providers''"
    by (simp_all add: path_defs)
  from C7_ThinHome_three_sources [of "\<lparr>getenvTHIN_HOME = ''/opt/thin'', statDotThinOk = True,
             getwd = ''/work'', userHomeDir = ''/home/u''\<rparr>"]
    C7_ThinHome_three_sources [of "\<lparr>getenvTHIN_HOME = [], statDotThinOk = True,
             getwd = ''/work'', userHomeDir = ''/home/u''\<rparr>"]
    C7_ThinHome_three_sources [of "\<lparr>getenvTHIN_HOME = [], statDotThinOk = False,
             getwd = ''/work'', userHomeDir = ''/home/u''\<rparr>"]
  show ?thesis
    by (simp add: j)
qed

text \<open>
  C7 as stated names two sources only. With \<open>THIN_HOME\<close> unset and a \<open>.thin\<close> entry in
  the working directory \<open>/work\<close>, the result is \<open>/work/.thin\<close>: neither the override
  nor the default under the home directory \<open>/home/u\<close>.
\<close>

theorem C7_counterexample:
  "getenvTHIN_HOME \<lparr>getenvTHIN_HOME = [], statDotThinOk = True,
             getwd = ''/work'', userHomeDir = ''/home/u''\<rparr> = [] \<and>
   ThinHome \<lparr>getenvTHIN_HOME = [], statDotThinOk = True,
             getwd = ''/work'', userHomeDir = ''/home/u''\<rparr> = ''/work/.thin'' \<and>
   Join [userHomeDir \<lparr>getenvTHIN_HOME = [], statDotThinOk = True,
             getwd = ''/work'', userHomeDir = ''/home/u''\<rparr>, ''.thin''] = ''/home/u/.thin'' \<and>
   ''/work/.thin'' \<noteq> ''/home/u/.thin''"
  by (simp add: ThinHome_def path_defs)

section \<open>Facts about the file system operations\<close>

lemma nodes_putNode: "nodes (putNode fs k n) k' = (if k' = k then Some n else nodes fs k')"
  by (simp add: putNode_def)

lemma umask_putNode: "umask (putNode fs k n) = umask fs"
  by (simp add: putNode_def)

lemma lookupNode_putNode_same: "snd k \<noteq> [] \<Longrightarrow> lookupNode (putNode fs k n) k = Some n"
  by (simp add: lookupNode_def nodes_putNode)

lemma lookupNode_None: "lookupNode fs k = None \<Longrightarrow> nodes fs k = None"
  by (simp add: lookupNode_def split: if_splits)

lemma mkdirAllUp_keeps:
  "mkdirAllUp fs r up = (err, fs') \<Longrightarrow> nodes fs k = Some n \<Longrightarrow> nodes fs' k = Some n"
proof (induction up arbitrary: err fs')
  case Nil
  then show ?case by simp
next
  case (Cons e up)
  show ?case
  proof (cases "lookupNode fs (r, rev (e # up))")
    case None
    then have free: "nodes fs (r, rev (e # up)) = None" by (rule lookupNode_None)
    obtain err1 fs1 where rec: "mkdirAllUp fs r up = (err1, fs1)" by (cases "mkdirAllUp fs r up")
    from Cons.IH [OF rec Cons.prems(2)] have keep: "nodes fs1 k = Some n" .
    from free Cons.prems(2) have ne: "k \<noteq> (r, rev (e # up))" by auto
    show ?thesis
    proof (cases err1)
      case None
      with Cons.prems(1) rec \<open>lookupNode fs (r, rev (e # up)) = None\<close>
      have "fs' = putNode fs1 (r, rev (e # up)) DirNode" by simp
      with keep ne show ?thesis by (simp add: nodes_putNode)
    next
      case (Some x)
      with Cons.prems(1) rec \<open>lookupNode fs (r, rev (e # up)) = None\<close>
      have "fs' = fs1" by simp
      with keep show ?thesis by simp
    qed
  next
    case (Some nd)
    with Cons.prems(1) have "fs' = fs" by (cases nd) simp_all
    with Cons.prems(2) show ?thesis by simp
  qed
qed

lemma mkdirAllUp_dir:
  "mkdirAllUp fs r up = (None, fs') \<Longrightarrow> lookupNode fs' (r, rev up) = Some DirNode"
proof (cases up)
  case Nil
  then show ?thesis by (simp add: lookupNode_def)
next
  case (Cons e up')
  assume ok: "mkdirAllUp fs r up = (None, fs')"
  show ?thesis
  proof (cases "lookupNode fs (r, rev (e # up'))")
    case None
    obtain err1 fs1 where rec: "mkdirAllUp fs r up' = (err1, fs1)" by (cases "mkdirAllUp fs r up'")
    with ok Cons None have "err1 = None" "fs' = putNode fs1 (r, rev (e # up')) DirNode"
      by (cases err1; simp)+
    then show ?thesis
      using Cons by (simp add: lookupNode_putNode_same)
  next
    case (Some nd)
    with ok Cons have "nd = DirNode" "fs' = fs" by (cases nd; simp)+
    with Some Cons show ?thesis by simp
  qed
qed

lemma openCreateTrunc_ok:
  assumes "openCreateTrunc fs p perm = (None, fs')"
  shows "\<exists>m. nodes fs' (pathKey p) = Some (FileNode [] m)"
    and "k \<noteq> pathKey p \<Longrightarrow> nodes fs' k = nodes fs k"
    and "lookupNode fs (pathKey p) \<noteq> Some DirNode"
  using assms
  by (auto simp: openCreateTrunc_def Let_def nodes_putNode split: option.splits Node.splits)

lemma openCreateTrunc_fail:
  "openCreateTrunc fs p perm = (Some err, fs') \<Longrightarrow> fs' = fs"
  by (auto simp: openCreateTrunc_def Let_def split: option.splits Node.splits)

lemma writeOpenFile_nodes:
  "nodes fs (pathKey p) = Some (FileNode c m) \<Longrightarrow>
   nodes (writeOpenFile fs p bytes) k =
     (if k = pathKey p then Some (FileNode bytes m) else nodes fs k)"
  by (simp add: writeOpenFile_def nodes_putNode)

lemma os_WriteFile_ok:
  assumes "os_WriteFile fs p bytes perm = (None, fs')"
  shows "\<exists>m. nodes fs' (pathKey p) = Some (FileNode bytes m)"
    and "k \<noteq> pathKey p \<Longrightarrow> nodes fs' k = nodes fs k"
    and "lookupNode fs (pathKey p) \<noteq> Some DirNode"
proof -
  obtain err1 fs1 where o: "openCreateTrunc fs p perm = (err1, fs1)"
    by (cases "openCreateTrunc fs p perm")
  with assms have e: "err1 = None" and f: "fs' = writeOpenFile fs1 p bytes"
    by (auto simp: os_WriteFile_def split: option.splits)
  from openCreateTrunc_ok [OF o [unfolded e]]
  obtain m where m: "nodes fs1 (pathKey p) = Some (FileNode [] m)"
    and other: "\<And>k. k \<noteq> pathKey p \<Longrightarrow> nodes fs1 k = nodes fs k"
    and nd: "lookupNode fs (pathKey p) \<noteq> Some DirNode" by blast
  show "\<exists>m. nodes fs' (pathKey p) = Some (FileNode bytes m)"
    by (simp add: f writeOpenFile_nodes [OF m])
  show "k \<noteq> pathKey p \<Longrightarrow> nodes fs' k = nodes fs k"
    by (simp add: f writeOpenFile_nodes [OF m] other)
  show "lookupNode fs (pathKey p) \<noteq> Some DirNode" by (rule nd)
qed

lemma os_WriteFile_fail: "os_WriteFile fs p bytes perm = (Some err, fs') \<Longrightarrow> fs' = fs"
  by (auto simp: os_WriteFile_def split: option.splits prod.splits dest: openCreateTrunc_fail)

lemma os_Chmod_file:
  assumes "nodes fs (pathKey p) = Some (FileNode c m)" "snd (pathKey p) \<noteq> []"
  shows "os_Chmod fs p mode = (None, putNode fs (pathKey p) (FileNode c (syscallMode mode)))"
  using assms by (simp add: os_Chmod_def lookupNode_def)

lemma os_Chmod_keeps:
  "os_Chmod fs p mode = (err, fs') \<Longrightarrow> k \<noteq> pathKey p \<Longrightarrow> nodes fs' k = nodes fs k"
  by (auto simp: os_Chmod_def nodes_putNode split: option.splits Node.splits)

section \<open>Facts about path names\<close>

lemma splitOn_nonempty: "splitOn c s \<noteq> []"
  by (induction s) (auto split: list.splits)

lemma splitOn_append_sep: "splitOn c (a @ c # b) = splitOn c a @ splitOn c b"
proof (induction a)
  case Nil
  show ?case by simp
next
  case (Cons x a)
  obtain e es where s: "splitOn c a = e # es"
    using splitOn_nonempty [of c a] by (cases "splitOn c a") auto
  show ?case
    by (simp add: Cons.IH s)
qed

lemma splitOn_no_sep: "e \<in> set (splitOn c s) \<Longrightarrow> c \<notin> set e"
proof (induction s arbitrary: e)
  case Nil
  then show ?case by simp
next
  case (Cons x s)
  obtain e' es where s: "splitOn c s = e' # es"
    using splitOn_nonempty [of c s] by (cases "splitOn c s") auto
  show ?case
  proof (cases "x = c")
    case True
    with Cons show ?thesis by auto
  next
    case False
    with Cons.prems s have "e = x # e' \<or> e \<in> set es" by auto
    then show ?thesis
      using Cons.IH s False by auto
  qed
qed

lemma splitOn_single: "c \<notin> set e \<Longrightarrow> splitOn c e = [e]"
  by (induction e) auto

lemma splitOn_joinSep:
  "es \<noteq> [] \<Longrightarrow> \<forall>e\<in>set es. CHR ''/'' \<notin> set e \<Longrightarrow> splitOn CHR ''/'' (joinSep es) = es"
proof (induction es rule: joinSep.induct)
  case 1
  then show ?case by simp
next
  case (2 e)
  then show ?case by (simp add: splitOn_single)
next
  case (3 e v va)
  then show ?case
    using splitOn_append_sep [of "CHR ''/''" e "joinSep (v # va)"]
    by (simp add: splitOn_single)
qed

lemma cleanStep_plain:
  "e \<noteq> [] \<Longrightarrow> e \<noteq> ''.'' \<Longrightarrow> e \<noteq> ''..'' \<Longrightarrow> cleanStep r out e = out @ [e]"
  by (simp add: cleanStep_def)

lemma foldl_cleanStep_plain:
  "''..'' \<notin> set ns \<Longrightarrow>
   foldl (cleanStep r) acc ns = acc @ filter (\<lambda>e. e \<noteq> [] \<and> e \<noteq> ''.'') ns"
proof (induction ns arbitrary: acc)
  case Nil
  show ?case by simp
next
  case (Cons e ns)
  then have "e \<noteq> ''..''" by auto
  then have "cleanStep r acc e = (if e \<noteq> [] \<and> e \<noteq> ''.'' then acc @ [e] else acc)"
    by (auto simp: cleanStep_def)
  with Cons show ?case by simp
qed

lemma foldl_cleanStep_dots:
  "foldl (cleanStep False) (replicate j ''..'') (replicate k ''..'') = replicate (j + k) ''..''"
proof (induction k arbitrary: j)
  case 0
  show ?case by simp
next
  case (Suc k)
  have "cleanStep False (replicate j ''..'') ''..'' = replicate (Suc j) ''..''"
    by (cases j) (simp_all add: cleanStep_def replicate_append_same)
  with Suc [of "Suc j"] show ?case by simp
qed

lemma foldl_cleanStep_cleanList:
  assumes "cleanList r es"
  shows "foldl (cleanStep r) [] es = es"
proof -
  from assms obtain k ns where es: "es = replicate k ''..'' @ ns" and nd: "''..'' \<notin> set ns"
    and rk: "r \<longrightarrow> k = 0"
    and pl: "\<forall>e\<in>set ns. e \<noteq> [] \<and> e \<noteq> ''.'' \<and> CHR ''/'' \<notin> set e"
    by (auto simp: cleanList_def)
  have f: "filter (\<lambda>e. e \<noteq> [] \<and> e \<noteq> ''.'') ns = ns"
    using pl by (simp add: filter_id_conv)
  have d: "foldl (cleanStep r) [] (replicate k ''..'') = replicate k ''..''"
  proof (cases r)
    case True
    with rk show ?thesis by simp
  next
    case False
    with foldl_cleanStep_dots [of 0 k] show ?thesis by simp
  qed
  show ?thesis
    by (simp add: es d foldl_cleanStep_plain [OF nd] f)
qed

lemma cleanList_Nil: "cleanList r []"
  by (simp add: cleanList_def)

lemma cleanListI:
  assumes "es = replicate k ''..'' @ ns" "''..'' \<notin> set ns"
    "\<forall>e\<in>set ns. e \<noteq> [] \<and> e \<noteq> ''.'' \<and> CHR ''/'' \<notin> set e" "r \<longrightarrow> k = 0"
  shows "cleanList r es"
  unfolding cleanList_def using assms by (intro exI [of _ k] exI [of _ ns]) simp

lemma cleanStep_cleanList:
  assumes "cleanList r out" "CHR ''/'' \<notin> set e"
  shows "cleanList r (cleanStep r out e)"
proof -
  from assms(1) obtain k ns where out: "out = replicate k ''..'' @ ns" and nd: "''..'' \<notin> set ns"
    and rk: "r \<longrightarrow> k = 0"
    and pl: "\<forall>e\<in>set ns. e \<noteq> [] \<and> e \<noteq> ''.'' \<and> CHR ''/'' \<notin> set e"
    by (auto simp: cleanList_def)
  consider (skip) "e = [] \<or> e = ''.''" | (up) "e = ''..''" | (plain) "e \<noteq> []" "e \<noteq> ''.''" "e \<noteq> ''..''"
    by blast
  then show ?thesis
  proof cases
    case skip
    then have "cleanStep r out e = out" by (auto simp: cleanStep_def)
    with assms(1) show ?thesis by simp
  next
    case plain
    then have "cleanStep r out e = replicate k ''..'' @ (ns @ [e])"
      by (simp add: cleanStep_plain out)
    moreover have "''..'' \<notin> set (ns @ [e])" using nd plain by simp
    moreover have "\<forall>x\<in>set (ns @ [e]). x \<noteq> [] \<and> x \<noteq> ''.'' \<and> CHR ''/'' \<notin> set x"
      using pl plain assms(2) by simp
    ultimately show ?thesis
      using rk by (rule cleanListI)
  next
    case up
    show ?thesis
    proof (cases "ns = []")
      case False
      then have l: "last out = last ns" "out \<noteq> []" "butlast out = replicate k ''..'' @ butlast ns"
        by (simp_all add: out butlast_append)
      from False nd have "last ns \<noteq> ''..''" using last_in_set by metis
      with l up have "cleanStep r out e = replicate k ''..'' @ butlast ns"
        by (simp add: cleanStep_def)
      moreover have sub: "set (butlast ns) \<subseteq> set ns" by (auto dest: in_set_butlastD)
      moreover have "''..'' \<notin> set (butlast ns)" using nd sub by blast
      moreover have "\<forall>e\<in>set (butlast ns). e \<noteq> [] \<and> e \<noteq> ''.'' \<and> CHR ''/'' \<notin> set e"
        using pl sub by blast
      ultimately show ?thesis
        using rk by (intro cleanListI [where k = k and ns = "butlast ns"]) simp_all
    next
      case True
      then have o: "out = replicate k ''..''" by (simp add: out)
      have nb: "\<not> (out \<noteq> [] \<and> last out \<noteq> ''..'')"
        by (cases k) (simp_all add: o)
      show ?thesis
      proof (cases r)
        case True
        with nb up have "cleanStep r out e = out" by (auto simp: cleanStep_def)
        with assms(1) show ?thesis by simp
      next
        case False
        with nb up have "cleanStep r out e = out @ [''..'']"
          by (auto simp: cleanStep_def)
        then have "cleanStep r out e = replicate (Suc k) ''..'' @ []"
          by (simp add: o replicate_append_same)
        then show ?thesis
          using False by (intro cleanListI [where k = "Suc k" and ns = "[]"]) simp_all
      qed
    qed
  qed
qed

lemma foldl_cleanStep_keeps_cleanList:
  "cleanList r acc \<Longrightarrow> \<forall>e\<in>set es. CHR ''/'' \<notin> set e \<Longrightarrow> cleanList r (foldl (cleanStep r) acc es)"
proof (induction es arbitrary: acc)
  case Nil
  then show ?case by simp
next
  case (Cons e es)
  from Cons.prems have "cleanList r (cleanStep r acc e)"
    by (intro cleanStep_cleanList) simp_all
  moreover from Cons.prems(2) have "\<forall>x\<in>set es. CHR ''/'' \<notin> set x" by simp
  ultimately have "cleanList r (foldl (cleanStep r) (cleanStep r acc e) es)"
    by (rule Cons.IH)
  then show ?case by simp
qed

lemma cleanList_cleanElems: "cleanList (isRooted p) (cleanElems p)"
proof -
  have "\<forall>e\<in>set (splitOn CHR ''/'' p). CHR ''/'' \<notin> set e"
  proof
    fix e assume "e \<in> set (splitOn CHR ''/'' p)"
    then show "CHR ''/'' \<notin> set e" by (rule splitOn_no_sep)
  qed
  with cleanList_Nil show ?thesis
    unfolding cleanElems_def by (rule foldl_cleanStep_keeps_cleanList)
qed

lemma cleanList_elems:
  assumes "cleanList r es" "e \<in> set es"
  shows "CHR ''/'' \<notin> set e \<and> e \<noteq> []"
proof -
  from assms(1) obtain k ns where es: "es = replicate k ''..'' @ ns"
    and pl: "\<forall>e\<in>set ns. e \<noteq> [] \<and> e \<noteq> ''.'' \<and> CHR ''/'' \<notin> set e"
    unfolding cleanList_def by blast
  from assms(2) have "e \<in> set (replicate k ''..'') \<or> e \<in> set ns"
    unfolding es by simp
  then consider (dots) "e = ''..''" | (plain) "e \<in> set ns"
    by (cases k) auto
  then show ?thesis
  proof cases
    case dots
    show ?thesis by (simp add: dots)
  next
    case plain
    with pl show ?thesis by blast
  qed
qed

lemma isRooted_joinSep:
  assumes "es \<noteq> []" "hd es \<noteq> []" "CHR ''/'' \<notin> set (hd es)"
  shows "\<not> isRooted (joinSep es)"
proof -
  obtain c cs rest where es: "es = (c # cs) # rest"
    using assms(1,2) by (cases es; cases "hd es") auto
  with assms(3) have "c \<noteq> CHR ''/''" by auto
  then show ?thesis
    by (cases rest) (simp_all add: es isRooted_def)
qed

lemma cleanElems_rooted_Clean:
  assumes "isRooted p"
  shows "isRooted (Clean p)" and "cleanElems (Clean p) = cleanElems p"
proof -
  let ?es = "cleanElems p"
  note cl = cleanList_cleanElems [of p]
  have sep: "\<forall>e\<in>set ?es. CHR ''/'' \<notin> set e" using cleanList_elems [OF cl] by blast
  from assms have c: "Clean p = CHR ''/'' # joinSep ?es" by (simp add: Clean_def)
  show r: "isRooted (Clean p)" by (simp add: c isRooted_def)
  have skip: "cleanStep True [] [] = []" by (simp add: cleanStep_def)
  have "splitOn CHR ''/'' (Clean p) = [] # splitOn CHR ''/'' (joinSep ?es)"
    by (simp add: c)
  then have "cleanElems (Clean p) = foldl (cleanStep True) [] (splitOn CHR ''/'' (joinSep ?es))"
    using r by (simp add: cleanElems_def skip)
  also have "\<dots> = ?es"
  proof (cases "?es = []")
    case True
    then show ?thesis by (simp add: skip)
  next
    case False
    with sep have "splitOn CHR ''/'' (joinSep ?es) = ?es" by (simp add: splitOn_joinSep)
    with cl assms show ?thesis by (simp add: foldl_cleanStep_cleanList)
  qed
  finally show "cleanElems (Clean p) = cleanElems p" .
qed

lemma cleanElems_relative_Clean:
  assumes "\<not> isRooted p"
  shows "\<not> isRooted (Clean p)" and "cleanElems (Clean p) = cleanElems p"
proof -
  let ?es = "cleanElems p"
  note cl = cleanList_cleanElems [of p]
  have sep: "\<forall>e\<in>set ?es. CHR ''/'' \<notin> set e" using cleanList_elems [OF cl] by blast
  have dot: "\<not> isRooted ''.''" "cleanElems ''.'' = []"
    by (simp_all add: isRooted_def cleanElems_def cleanStep_def)
  show "\<not> isRooted (Clean p)"
  proof (cases "?es = []")
    case True
    with assms have "Clean p = ''.''" by (simp add: Clean_def)
    with dot show ?thesis by simp
  next
    case False
    with assms have c: "Clean p = joinSep ?es" by (simp add: Clean_def)
    from False have hd: "hd ?es \<in> set ?es" by simp
    from cleanList_elems [OF cl hd] have "hd ?es \<noteq> []" "CHR ''/'' \<notin> set (hd ?es)" by simp_all
    with False show ?thesis unfolding c by (rule isRooted_joinSep)
  qed
  then have r: "isRooted (Clean p) = False" by simp
  show "cleanElems (Clean p) = cleanElems p"
  proof (cases "?es = []")
    case True
    with assms have "Clean p = ''.''" by (simp add: Clean_def)
    with dot True show ?thesis by simp
  next
    case False
    with assms have c: "Clean p = joinSep ?es" by (simp add: Clean_def)
    have "splitOn CHR ''/'' (Clean p) = ?es" using False sep by (simp add: c splitOn_joinSep)
    then have "cleanElems (Clean p) = foldl (cleanStep False) [] ?es"
      by (simp add: cleanElems_def r)
    also have "\<dots> = ?es" using cl assms by (simp add: foldl_cleanStep_cleanList)
    finally show ?thesis .
  qed
qed

lemma pathKey_Clean: "pathKey (Clean p) = pathKey p"
proof (cases "isRooted p")
  case True
  from cleanElems_rooted_Clean [OF True] True show ?thesis by (simp add: pathKey_def)
next
  case False
  from cleanElems_relative_Clean [OF False] False show ?thesis by (simp add: pathKey_def)
qed

lemma pathKey_Join:
  assumes "targetDir \<noteq> []" "noDotDot name"
  shows "pathKey (Join [targetDir, name]) = (isRooted targetDir, cleanElems targetDir @ nameElems name)"
proof -
  let ?p = "targetDir @ CHR ''/'' # name"
  have j: "Join [targetDir, name] = Clean ?p"
    using assms(1) by (cases targetDir) (simp_all add: Join_def)
  have r: "isRooted ?p = isRooted targetDir"
    using assms(1) by (cases targetDir) (simp_all add: isRooted_def)
  have "cleanElems ?p =
      foldl (cleanStep (isRooted targetDir)) (cleanElems targetDir) (splitOn CHR ''/'' name)"
    by (simp add: cleanElems_def r splitOn_append_sep)
  also have "\<dots> = cleanElems targetDir @ nameElems name"
    using assms(2) by (simp add: foldl_cleanStep_plain noDotDot_def nameElems_def)
  finally have "pathKey ?p = (isRooted targetDir, cleanElems targetDir @ nameElems name)"
    by (simp add: pathKey_def r)
  then show ?thesis
    by (simp only: j pathKey_Clean)
qed

section \<open>Facts about the tar loop\<close>

lemma orReturn_cases:
  assumes "orReturn r k = res"
  obtains (fail) err fs1 where "r = (Some err, fs1)" "res = (Some (OSError err), fs1)"
        | (ok) fs1 where "r = (None, fs1)" "res = k fs1"
  using assms by (cases r; cases "fst r") (auto simp: orReturn_def)

lemma TypeReg_neq_TypeDir: "TypeReg \<noteq> TypeDir"
  by (simp add: TypeReg_def TypeDir_def)

lemma lookupNode_not_dir_snd: "lookupNode fs k \<noteq> Some DirNode \<Longrightarrow> snd k \<noteq> []"
  by (auto simp: lookupNode_def)

lemma extractEntry_reg_ok:
  assumes reg: "Typeflag e = TypeReg"
    and ok: "extractEntry fs targetDir e = (None, fs')"
  shows "nodes fs' (pathKey (Join [targetDir, Name e])) =
           Some (FileNode (Data e) (syscallMode (ucast (Mode e))))"
proof -
  let ?p = "Join [targetDir, Name e]"
  from reg ok TypeReg_neq_TypeDir
  have run: "orReturn (os_MkdirAll fs (Dir ?p) 0x1ED) (\<lambda>fs1.
        orReturn (os_Create fs1 ?p) (\<lambda>fs2.
          let fs3 = writeOpenFile fs2 ?p (Data e) in
          if DataErr e then (Some CopyError, fs3)
          else orReturn (os_Chmod fs3 ?p (ucast (Mode e))) (\<lambda>fs4. (None, fs4)))) = (None, fs')"
    by (simp add: extractEntry_def Let_def)
  from run obtain fs1 where
    cr: "orReturn (os_Create fs1 ?p) (\<lambda>fs2.
          let fs3 = writeOpenFile fs2 ?p (Data e) in
          if DataErr e then (Some CopyError, fs3)
          else orReturn (os_Chmod fs3 ?p (ucast (Mode e))) (\<lambda>fs4. (None, fs4))) = (None, fs')"
    by (cases rule: orReturn_cases) simp_all
  from cr obtain fs2 where c: "os_Create fs1 ?p = (None, fs2)"
    and wr: "(let fs3 = writeOpenFile fs2 ?p (Data e) in
          if DataErr e then (Some CopyError, fs3)
          else orReturn (os_Chmod fs3 ?p (ucast (Mode e))) (\<lambda>fs4. (None, fs4))) = (None, fs')"
    by (cases rule: orReturn_cases) simp_all
  from c have c': "openCreateTrunc fs1 ?p 0x1B6 = (None, fs2)" by (simp add: os_Create_def)
  from openCreateTrunc_ok(1) [OF c'] obtain m where m: "nodes fs2 (pathKey ?p) = Some (FileNode [] m)"
    by blast
  from openCreateTrunc_ok(3) [OF c'] have ne: "snd (pathKey ?p) \<noteq> []"
    by (rule lookupNode_not_dir_snd)
  let ?fs3 = "writeOpenFile fs2 ?p (Data e)"
  have w: "nodes ?fs3 (pathKey ?p) = Some (FileNode (Data e) m)"
    by (simp add: writeOpenFile_nodes [OF m])
  from wr have noerr: "\<not> DataErr e"
    and ch: "orReturn (os_Chmod ?fs3 ?p (ucast (Mode e))) (\<lambda>fs4. (None, fs4)) = (None, fs')"
    by (auto simp: Let_def split: if_splits)
  from ch have "fs' = putNode ?fs3 (pathKey ?p) (FileNode (Data e) (syscallMode (ucast (Mode e))))"
    by (simp add: os_Chmod_file [OF w ne] orReturn_def)
  then show ?thesis by (simp add: nodes_putNode)
qed

lemma os_MkdirAll_keeps:
  "os_MkdirAll fs p perm = (err, fs') \<Longrightarrow> nodes fs k = Some n \<Longrightarrow> nodes fs' k = Some n"
  unfolding os_MkdirAll_def by (rule mkdirAllUp_keeps)

lemma os_Create_keeps:
  "os_Create fs p = (err, fs') \<Longrightarrow> k \<noteq> pathKey p \<Longrightarrow> nodes fs' k = nodes fs k"
  by (cases err) (auto simp: os_Create_def dest: openCreateTrunc_ok(2) openCreateTrunc_fail)

lemma writeOpenFile_keeps: "k \<noteq> pathKey p \<Longrightarrow> nodes (writeOpenFile fs p bytes) k = nodes fs k"
  by (simp add: writeOpenFile_def nodes_putNode split: option.splits Node.splits)

lemma extractEntry_keeps:
  assumes run: "extractEntry fs targetDir e = (err, fs')"
    and present: "nodes fs k = Some n"
    and other: "Typeflag e = TypeReg \<Longrightarrow> pathKey (Join [targetDir, Name e]) \<noteq> k"
  shows "nodes fs' k = Some n"
proof -
  let ?p = "Join [targetDir, Name e]"
  consider (dir) "Typeflag e = TypeDir" | (reg) "Typeflag e = TypeReg" "Typeflag e \<noteq> TypeDir"
    | (none) "Typeflag e \<noteq> TypeDir" "Typeflag e \<noteq> TypeReg" by blast
  then show ?thesis
  proof cases
    case dir
    obtain err1 fs1 where mk: "os_MkdirAll fs ?p 0x1ED = (err1, fs1)"
      by (cases "os_MkdirAll fs ?p 0x1ED")
    with run dir have "fs' = fs1"
      by (cases err1) (simp_all add: extractEntry_def Let_def orReturn_def)
    with os_MkdirAll_keeps [OF mk present] show ?thesis by simp
  next
    case reg
    from other [OF reg(1)] have ne: "k \<noteq> pathKey ?p" by blast
    obtain err1 fs1 where mk: "os_MkdirAll fs (Dir ?p) 0x1ED = (err1, fs1)"
      by (cases "os_MkdirAll fs (Dir ?p) 0x1ED")
    note k1 = os_MkdirAll_keeps [OF mk present]
    obtain err2 fs2 where cr: "os_Create fs1 ?p = (err2, fs2)"
      by (cases "os_Create fs1 ?p")
    have k2: "nodes fs2 k = Some n" using os_Create_keeps [OF cr ne] k1 by simp
    let ?fs3 = "writeOpenFile fs2 ?p (Data e)"
    have k3: "nodes ?fs3 k = Some n" using writeOpenFile_keeps [OF ne] k2 by simp
    obtain err4 fs4 where ch: "os_Chmod ?fs3 ?p (ucast (Mode e)) = (err4, fs4)"
      by (cases "os_Chmod ?fs3 ?p (ucast (Mode e))")
    have k4: "nodes fs4 k = Some n" using os_Chmod_keeps [OF ch ne] k3 by simp
    from run reg mk cr ch have "fs' = fs1 \<or> fs' = fs2 \<or> fs' = ?fs3 \<or> fs' = fs4"
      by (cases err1; cases err2; cases err4; cases "DataErr e")
        (simp_all add: extractEntry_def Let_def orReturn_def)
    with k1 k2 k3 k4 show ?thesis by auto
  next
    case none
    with run have "fs' = fs" by (simp add: extractEntry_def Let_def)
    with present show ?thesis by simp
  qed
qed

lemma extractEntries_keeps:
  assumes "extractEntries fs targetDir es ends = (err, fs')"
    and "nodes fs k = Some n"
    and "\<forall>e'\<in>set es. Typeflag e' = TypeReg \<longrightarrow> pathKey (Join [targetDir, Name e']) \<noteq> k"
  shows "nodes fs' k = Some n"
  using assms
proof (induction es arbitrary: fs)
  case Nil
  then show ?case by (simp split: if_splits)
next
  case (Cons e es)
  obtain err1 fs1 where step: "extractEntry fs targetDir e = (err1, fs1)"
    by (cases "extractEntry fs targetDir e")
  have k1: "nodes fs1 k = Some n"
    using extractEntry_keeps [OF step Cons.prems(2)] Cons.prems(3) by simp
  show ?case
  proof (cases err1)
    case None
    with Cons.prems(1) step have "extractEntries fs1 targetDir es ends = (err, fs')" by simp
    from Cons.IH [OF this k1] Cons.prems(3) show ?thesis by simp
  next
    case (Some x)
    with Cons.prems(1) step have "fs' = fs1" by simp
    with k1 show ?thesis by simp
  qed
qed

lemma extractEntries_append_ok:
  "extractEntries fs targetDir (pre @ e # post) ends = (None, fs') \<Longrightarrow>
   \<exists>fs1 fs2. extractEntry fs1 targetDir e = (None, fs2) \<and>
             extractEntries fs2 targetDir post ends = (None, fs')"
proof (induction pre arbitrary: fs)
  case Nil
  then show ?case
    by (cases "extractEntry fs targetDir e") (auto split: option.splits)
next
  case (Cons a pre)
  obtain err1 fs1 where step: "extractEntry fs targetDir a = (err1, fs1)"
    by (cases "extractEntry fs targetDir a")
  with Cons.prems have "err1 = None" "extractEntries fs1 targetDir (pre @ e # post) ends = (None, fs')"
    by (cases err1; simp)+
  with Cons.IH show ?case by blast
qed

lemma syscallMode_perm: "syscallMode i AND 0x1FF = i AND 0x1FF"
  by (simp add: syscallMode_def word_ao_dist word_bw_assocs)

lemma syscallMode_small:
  fixes i :: "32 word"
  assumes "i AND 0x1FF = i"
  shows "syscallMode i = i"
proof -
  have "i AND 0x800000 = (i AND 0x1FF) AND 0x800000" by (simp only: assms)
  also have "\<dots> = 0" by (simp add: word_bw_assocs)
  finally have a: "i AND 0x800000 = 0" .
  have "i AND 0x400000 = (i AND 0x1FF) AND 0x400000" by (simp only: assms)
  also have "\<dots> = 0" by (simp add: word_bw_assocs)
  finally have b: "i AND 0x400000 = 0" .
  have "i AND 0x100000 = (i AND 0x1FF) AND 0x100000" by (simp only: assms)
  also have "\<dots> = 0" by (simp add: word_bw_assocs)
  finally have c: "i AND 0x100000 = 0" .
  show ?thesis by (simp add: syscallMode_def a b c assms)
qed

lemma ucast_perm_only:
  fixes M :: "64 word"
  assumes "M AND 0x1FF = M"
  shows "(ucast M :: 32 word) AND 0x1FF = ucast M"
proof -
  have "(ucast M :: 32 word) = ucast (M AND 0x1FF)" by (simp only: assms)
  also have "\<dots> = ucast M AND ucast (0x1FF :: 64 word)" by (rule unsigned_and_eq)
  also have "ucast (0x1FF :: 64 word) = (0x1FF :: 32 word)" by simp
  finally show ?thesis by simp
qed

lemmas fs_defs = extractTarWithReader_def extractEntry_def orReturn_def os_MkdirAll_def os_Create_def
  os_Chmod_def os_WriteFile_def openCreateTrunc_def writeOpenFile_def lookupNode_def putNode_def
  syscallMode_def TypeReg_def TypeDir_def

section \<open>Claims about the extractor\<close>

lemma tar_entry_kept:
  assumes stream: "tar_NewReader rd reader = (pre @ e # post, ends)"
    and ok: "extractTarWithReader rd fs reader targetDir = (None, fs')"
    and reg: "Typeflag e = TypeReg"
    and final: "\<forall>e'\<in>set post. Typeflag e' = TypeReg \<longrightarrow>
                  pathKey (Join [targetDir, Name e']) \<noteq> pathKey (Join [targetDir, Name e])"
  shows "nodes fs' (pathKey (Join [targetDir, Name e])) =
           Some (FileNode (Data e) (syscallMode (ucast (Mode e))))"
proof -
  from ok stream have "extractEntries fs targetDir (pre @ e # post) ends = (None, fs')"
    by (simp add: extractTarWithReader_def)
  from extractEntries_append_ok [OF this] obtain fs1 fs2 where
    one: "extractEntry fs1 targetDir e = (None, fs2)"
    and rest: "extractEntries fs2 targetDir post ends = (None, fs')" by blast
  from extractEntry_reg_ok [OF reg one]
  have "nodes fs2 (pathKey (Join [targetDir, Name e])) =
      Some (FileNode (Data e) (syscallMode (ucast (Mode e))))" .
  from extractEntries_keeps [OF rest this final] show ?thesis .
qed

text \<open>
  C6, as the code has it. Take a tar stream none of whose entry names has a \<open>..\<close>
  element, extracted without error into a target directory with a non-empty name. Every
  regular-file entry with a non-empty name that no later regular-file entry of the
  stream names again leaves a file under the target directory, at the target
  directory's path followed by the elements of the entry's name. The file holds the
  entry's bytes and has the permission bits (the low nine bits) of the entry's mode,
  whatever the umask and whatever mode the file had before: the extractor calls
  \<open>os.Chmod\<close> itself after writing. A mode that has permission bits only is the file's
  mode exactly.
\<close>

theorem C6_tar_mode_round_trip:
  assumes stream: "tar_NewReader rd reader = (pre @ e # post, ends)"
    and ok: "extractTarWithReader rd fs reader targetDir = (None, fs')"
    and root: "targetDir \<noteq> []"
    and plain: "\<forall>e'\<in>set (pre @ e # post). noDotDot (Name e')"
    and reg: "Typeflag e = TypeReg"
    and named: "nameElems (Name e) \<noteq> []"
    and final: "\<forall>e'\<in>set post. Typeflag e' = TypeReg \<longrightarrow>
                  nameElems (Name e') \<noteq> nameElems (Name e)"
  shows "\<exists>m. nodes fs' (pathKey (Join [targetDir, Name e])) = Some (FileNode (Data e) m) \<and>
           pathKey (Join [targetDir, Name e]) =
               (fst (pathKey targetDir), snd (pathKey targetDir) @ nameElems (Name e)) \<and>
           m AND 0x1FF = ucast (Mode e) AND 0x1FF \<and>
           (Mode e AND 0x1FF = Mode e \<longrightarrow> m = ucast (Mode e))"
proof -
  let ?m = "syscallMode (ucast (Mode e))"
  have key: "pathKey (Join [targetDir, Name e']) =
      (isRooted targetDir, cleanElems targetDir @ nameElems (Name e'))"
    if "e' \<in> set (pre @ e # post)" for e'
  proof (rule pathKey_Join [OF root])
    from plain that show "noDotDot (Name e')" by blast
  qed
  have ke: "pathKey (Join [targetDir, Name e]) =
      (isRooted targetDir, cleanElems targetDir @ nameElems (Name e))"
    by (rule key) simp
  have final': "\<forall>e'\<in>set post. Typeflag e' = TypeReg \<longrightarrow>
      pathKey (Join [targetDir, Name e']) \<noteq> pathKey (Join [targetDir, Name e])"
  proof (intro ballI impI)
    fix e' assume m: "e' \<in> set post" and r: "Typeflag e' = TypeReg"
    from final m r have "nameElems (Name e') \<noteq> nameElems (Name e)" by blast
    moreover from m have "pathKey (Join [targetDir, Name e']) =
        (isRooted targetDir, cleanElems targetDir @ nameElems (Name e'))"
      by (intro key) simp
    ultimately show "pathKey (Join [targetDir, Name e']) \<noteq> pathKey (Join [targetDir, Name e])"
      by (simp add: ke)
  qed
  from tar_entry_kept [OF stream ok reg final']
  have "nodes fs' (pathKey (Join [targetDir, Name e])) = Some (FileNode (Data e) ?m)" .
  moreover have "pathKey (Join [targetDir, Name e]) =
      (fst (pathKey targetDir), snd (pathKey targetDir) @ nameElems (Name e))"
    unfolding ke by (simp add: pathKey_def)
  moreover have "?m AND 0x1FF = ucast (Mode e) AND 0x1FF" by (rule syscallMode_perm)
  moreover have "?m = ucast (Mode e)" if "Mode e AND 0x1FF = Mode e"
    using syscallMode_small [OF ucast_perm_only [OF that]] .
  ultimately show ?thesis by blast
qed

text \<open>C6 at a stream with a directory, an executable of mode 0755 and a manifest of mode
  0644, extracted under a umask of 022 into an empty tree: the executable is at
  \<open>/p/bin/tool\<close> with mode 0755.\<close>

theorem C6_witness:
  "\<exists>m. nodes (snd (extractTarWithReader
      \<lparr>bytes_NewReader = (\<lambda>b. ()), gzip_NewReader = Some,
       tar_NewReader = (\<lambda>r.
         ([\<lparr>Name = ''bin'', Typeflag = TypeDir, Mode = 0x1ED, Data = [], DataErr = False\<rparr>,
           \<lparr>Name = ''bin/tool'', Typeflag = TypeReg, Mode = 0x1ED, Data = ''#!'', DataErr = False\<rparr>,
           \<lparr>Name = ''thin.provider.yaml'', Typeflag = TypeReg, Mode = 0x1A4, Data = ''name: x'',
             DataErr = False\<rparr>],
          False))\<rparr>
      \<lparr>nodes = Map.empty, umask = 0x12\<rparr> () ''/p''))
      (True, [''p'', ''bin'', ''tool'']) = Some (FileNode ''#!'' m) \<and> m = 0x1ED"
proof -
  let ?pre = "[\<lparr>Name = ''bin'', Typeflag = TypeDir, Mode = 0x1ED, Data = [], DataErr = False\<rparr>]"
  let ?e = "\<lparr>Name = ''bin/tool'', Typeflag = TypeReg, Mode = 0x1ED, Data = ''#!'', DataErr = False\<rparr>"
  let ?post = "[\<lparr>Name = ''thin.provider.yaml'', Typeflag = TypeReg, Mode = 0x1A4, Data = ''name: x'',
             DataErr = False\<rparr>]"
  let ?rd = "\<lparr>bytes_NewReader = (\<lambda>b. ()), gzip_NewReader = Some,
       tar_NewReader = (\<lambda>r. (?pre @ ?e # ?post, False))\<rparr>"
  let ?fs = "\<lparr>nodes = Map.empty, umask = 0x12\<rparr>"
  let ?res = "extractTarWithReader ?rd ?fs () ''/p''"
  have stream: "tar_NewReader ?rd () = (?pre @ ?e # ?post, False)" by simp
  have "fst ?res = None"
    by (simp add: fs_defs path_defs Let_def)
  then have ok: "?res = (None, snd ?res)" by (simp add: prod_eq_iff)
  have root: "''/p'' \<noteq> []" by simp
  have plain: "\<forall>e'\<in>set (?pre @ ?e # ?post). noDotDot (Name e')"
    by (simp add: noDotDot_def)
  have reg: "Typeflag ?e = TypeReg" by simp
  have ne: "nameElems ''bin/tool'' = [''bin'', ''tool'']" by (simp add: nameElems_def)
  then have named: "nameElems (Name ?e) \<noteq> []" by simp
  have final: "\<forall>e'\<in>set ?post. Typeflag e' = TypeReg \<longrightarrow> nameElems (Name e') \<noteq> nameElems (Name ?e)"
    by (simp add: nameElems_def)
  have perm: "Mode ?e AND 0x1FF = Mode ?e" by simp
  have k: "pathKey ''/p'' = (True, [''p''])"
    by (simp add: path_defs)
  from C6_tar_mode_round_trip [OF stream ok root plain reg named final] perm
  show ?thesis by (auto simp: ne k)
qed

text \<open>
  C6 as stated fails for a stream that holds the same name twice. The first entry is a
  regular file of mode 0755 (\<open>0x1ED\<close>); after the extraction, which returns no error,
  the file at its path has the bytes and the mode 0644 (\<open>0x1A4\<close>) of the second entry.
\<close>

theorem C6_counterexample:
  "fst (extractTarWithReader
      \<lparr>bytes_NewReader = (\<lambda>b. ()), gzip_NewReader = Some,
       tar_NewReader = (\<lambda>r.
         ([\<lparr>Name = ''tool'', Typeflag = TypeReg, Mode = 0x1ED, Data = ''x'', DataErr = False\<rparr>,
           \<lparr>Name = ''tool'', Typeflag = TypeReg, Mode = 0x1A4, Data = ''y'', DataErr = False\<rparr>],
          False))\<rparr>
      \<lparr>nodes = Map.empty, umask = 0x12\<rparr> () ''/p'') = None
   \<and> nodes (snd (extractTarWithReader
      \<lparr>bytes_NewReader = (\<lambda>b. ()), gzip_NewReader = Some,
       tar_NewReader = (\<lambda>r.
         ([\<lparr>Name = ''tool'', Typeflag = TypeReg, Mode = 0x1ED, Data = ''x'', DataErr = False\<rparr>,
           \<lparr>Name = ''tool'', Typeflag = TypeReg, Mode = 0x1A4, Data = ''y'', DataErr = False\<rparr>],
          False))\<rparr>
      \<lparr>nodes = Map.empty, umask = 0x12\<rparr> () ''/p''))
      (pathKey (Join [''/p'', ''tool''])) = Some (FileNode ''y'' 0x1A4)
   \<and> (0x1A4 :: 32 word) AND 0x1FF \<noteq> ucast (0x1ED :: 64 word) AND 0x1FF"
  by (simp add: fs_defs path_defs Let_def)

lemma os_MkdirAll_dir:
  "os_MkdirAll fs p perm = (None, fs') \<Longrightarrow> lookupNode fs' (pathKey p) = Some DirNode"
  using mkdirAllUp_dir [of fs "isRooted p" "rev (cleanElems p)" fs']
  by (simp add: os_MkdirAll_def pathKey_def)

lemma startsPrintable_not_gzip: "startsPrintable bytes \<Longrightarrow> \<not> HasPrefix bytes gzipMagic"
  by (cases bytes) (auto simp: startsPrintable_def HasPrefix_def gzipMagic_def)

lemma short_not_tar: "length bytes < 512 \<Longrightarrow> \<not> isTar bytes"
  by (simp add: isTar_def)

lemma rawBinary_outcome:
  assumes run: "orReturn (os_MkdirAll fs (Dir binPath) 0x1ED) (\<lambda>fs1.
            orReturn (os_WriteFile fs1 binPath bytes 0x1ED) (\<lambda>fs2. (None, fs2))) = (err, fs')"
  shows "case (err, fs') of
           (None, fs') \<Rightarrow>
             (\<exists>m. nodes fs' (pathKey binPath) = Some (FileNode bytes m)) \<and>
             lookupNode fs' (pathKey (Dir binPath)) = Some DirNode
         | (Some e, fs') \<Rightarrow> (\<exists>errno. e = OSError errno)"
  using run
proof (cases rule: orReturn_cases)
  case (fail errno fs1)
  then show ?thesis by simp
next
  case (ok fs1)
  from os_MkdirAll_dir [OF ok(1)] have d1: "lookupNode fs1 (pathKey (Dir binPath)) = Some DirNode" .
  from ok(2) [symmetric] show ?thesis
  proof (cases rule: orReturn_cases)
    case (fail errno fs2)
    then show ?thesis by simp
  next
    case inner: (ok fs2)
    then have e: "err = None" and f: "fs' = fs2" by simp_all
    note w = os_WriteFile_ok [OF inner(1)]
    from w(3) d1 have ne: "pathKey (Dir binPath) \<noteq> pathKey binPath" by auto
    from w(2) [OF ne] d1 have "lookupNode fs2 (pathKey (Dir binPath)) = Some DirNode"
      by (auto simp: lookupNode_def split: if_splits)
    with w(1) e f show ?thesis by simp
  qed
qed

lemma manifest_outcome:
  assumes run: "orReturn (os_WriteFile fs p bytes 0x1A4) (\<lambda>fs1. (None, fs1)) = (err, fs')"
  shows "case (err, fs') of
           (None, fs') \<Rightarrow> (\<exists>m. nodes fs' (pathKey p) = Some (FileNode bytes m))
         | (Some e, fs') \<Rightarrow> (\<exists>errno. e = OSError errno) \<and> fs' = fs"
  using run
proof (cases rule: orReturn_cases)
  case (fail errno fs1)
  with os_WriteFile_fail [OF fail(1)] show ?thesis by simp
next
  case (ok fs1)
  with os_WriteFile_ok(1) [OF ok(1)] show ?thesis by simp
qed

text \<open>
  C4. \<open>extractLayerContent\<close> sniffs in this order. A payload that starts with the gzip
  magic bytes goes to the gzip reader and from there to the tar loop. Otherwise a
  payload with the tar signature goes to the tar loop. Otherwise a payload of more than
  4,000,000 bytes (so any of 5,000,000) is written verbatim to \<open>bin/entrypoint\<close> under
  the target directory, after \<open>bin\<close> has been created with its parents. Otherwise a
  payload whose first byte is printable ASCII is written verbatim to
  \<open>thin.provider.yaml\<close> (a printable first byte excludes the gzip magic, and fewer than
  512 bytes exclude the tar signature, so any 200-byte payload that starts printable).
  Otherwise nothing is written and no error is returned. In the two writing cases the
  only other outcome is the error of the operating system call that failed.
\<close>

theorem C4_extractLayerContent_dispatch:
  "(HasPrefix layerData gzipMagic \<longrightarrow>
      extractLayerContent rd fs layerData targetDir =
        (case gzip_NewReader rd (bytes_NewReader rd layerData) of
           None \<Rightarrow> (Some GzipError, fs)
         | Some gz \<Rightarrow> extractTarWithReader rd fs gz targetDir)) \<and>
   (\<not> HasPrefix layerData gzipMagic \<and> isTar layerData \<longrightarrow>
      extractLayerContent rd fs layerData targetDir =
        extractTarWithReader rd fs (bytes_NewReader rd layerData) targetDir) \<and>
   (\<not> HasPrefix layerData gzipMagic \<and> \<not> isTar layerData \<and> 4000000 < length layerData \<longrightarrow>
      (case extractLayerContent rd fs layerData targetDir of
         (None, fs') \<Rightarrow>
           (\<exists>m. nodes fs' (pathKey (Join [targetDir, ''bin'', ''entrypoint''])) =
                  Some (FileNode layerData m)) \<and>
           lookupNode fs' (pathKey (Dir (Join [targetDir, ''bin'', ''entrypoint'']))) = Some DirNode
       | (Some e, fs') \<Rightarrow> (\<exists>errno. e = OSError errno))) \<and>
   (\<not> HasPrefix layerData gzipMagic \<and> \<not> isTar layerData \<and> length layerData \<le> 4000000 \<and>
    startsPrintable layerData \<longrightarrow>
      (case extractLayerContent rd fs layerData targetDir of
         (None, fs') \<Rightarrow>
           (\<exists>m. nodes fs' (pathKey (Join [targetDir, ''thin.provider.yaml''])) =
                  Some (FileNode layerData m))
       | (Some e, fs') \<Rightarrow> (\<exists>errno. e = OSError errno) \<and> fs' = fs)) \<and>
   (\<not> HasPrefix layerData gzipMagic \<and> \<not> isTar layerData \<and> length layerData \<le> 4000000 \<and>
    \<not> startsPrintable layerData \<longrightarrow>
      extractLayerContent rd fs layerData targetDir = (None, fs)) \<and>
   (startsPrintable layerData \<longrightarrow> \<not> HasPrefix layerData gzipMagic) \<and>
   (length layerData < 512 \<longrightarrow> \<not> isTar layerData)"
proof (intro conjI impI)
  assume "HasPrefix layerData gzipMagic"
  then show "extractLayerContent rd fs layerData targetDir =
        (case gzip_NewReader rd (bytes_NewReader rd layerData) of
           None \<Rightarrow> (Some GzipError, fs)
         | Some gz \<Rightarrow> extractTarWithReader rd fs gz targetDir)"
    by (simp add: extractLayerContent_def extractTarGz_def)
next
  assume "\<not> HasPrefix layerData gzipMagic \<and> isTar layerData"
  then show "extractLayerContent rd fs layerData targetDir =
        extractTarWithReader rd fs (bytes_NewReader rd layerData) targetDir"
    by (simp add: extractLayerContent_def extractTar_def)
next
  let ?bin = "Join [targetDir, ''bin'', ''entrypoint'']"
  assume a: "\<not> HasPrefix layerData gzipMagic \<and> \<not> isTar layerData \<and> 4000000 < length layerData"
  obtain err fs' where r: "extractLayerContent rd fs layerData targetDir = (err, fs')"
    by (cases "extractLayerContent rd fs layerData targetDir")
  with a have "orReturn (os_MkdirAll fs (Dir ?bin) 0x1ED) (\<lambda>fs1.
            orReturn (os_WriteFile fs1 ?bin layerData 0x1ED) (\<lambda>fs2. (None, fs2))) = (err, fs')"
    by (simp add: extractLayerContent_def Let_def)
  from rawBinary_outcome [OF this] r
  show "case extractLayerContent rd fs layerData targetDir of
         (None, fs') \<Rightarrow>
           (\<exists>m. nodes fs' (pathKey ?bin) = Some (FileNode layerData m)) \<and>
           lookupNode fs' (pathKey (Dir ?bin)) = Some DirNode
       | (Some e, fs') \<Rightarrow> (\<exists>errno. e = OSError errno)"
    by simp
next
  let ?y = "Join [targetDir, ''thin.provider.yaml'']"
  assume a: "\<not> HasPrefix layerData gzipMagic \<and> \<not> isTar layerData \<and> length layerData \<le> 4000000 \<and>
    startsPrintable layerData"
  obtain err fs' where r: "extractLayerContent rd fs layerData targetDir = (err, fs')"
    by (cases "extractLayerContent rd fs layerData targetDir")
  with a have "orReturn (os_WriteFile fs ?y layerData 0x1A4) (\<lambda>fs1. (None, fs1)) = (err, fs')"
    by (simp add: extractLayerContent_def)
  from manifest_outcome [OF this] r
  show "case extractLayerContent rd fs layerData targetDir of
         (None, fs') \<Rightarrow> (\<exists>m. nodes fs' (pathKey ?y) = Some (FileNode layerData m))
       | (Some e, fs') \<Rightarrow> (\<exists>errno. e = OSError errno) \<and> fs' = fs"
    by simp
next
  assume "\<not> HasPrefix layerData gzipMagic \<and> \<not> isTar layerData \<and> length layerData \<le> 4000000 \<and>
    \<not> startsPrintable layerData"
  then show "extractLayerContent rd fs layerData targetDir = (None, fs)"
    by (simp add: extractLayerContent_def)
next
  assume "startsPrintable layerData"
  then show "\<not> HasPrefix layerData gzipMagic" by (rule startsPrintable_not_gzip)
next
  assume "length layerData < 512"
  then show "\<not> isTar layerData" by (rule short_not_tar)
qed

lemma replicate_not_ustar: "c \<noteq> CHR ''u'' \<Longrightarrow> replicate 5 c \<noteq> ''ustar''"
  by (simp add: numeral_eq_Suc)

text \<open>C4 at one payload for each of the five cases: 5,000,000 raw bytes, 200 bytes of
  text, two control bytes, a gzip magic with a bad header, and a tar signature.\<close>

theorem C4_witness:
  "fst (extractLayerContent
        \<lparr>bytes_NewReader = (\<lambda>b. b), gzip_NewReader = (\<lambda>r. None), tar_NewReader = (\<lambda>r. ([], False))\<rparr>
        \<lparr>nodes = Map.empty, umask = 0x12\<rparr> (replicate 5000000 (CHR ''E'')) ''/p'') = None \<and>
   (\<exists>m. nodes (snd (extractLayerContent
        \<lparr>bytes_NewReader = (\<lambda>b. b), gzip_NewReader = (\<lambda>r. None), tar_NewReader = (\<lambda>r. ([], False))\<rparr>
        \<lparr>nodes = Map.empty, umask = 0x12\<rparr> (replicate 5000000 (CHR ''E'')) ''/p''))
        (pathKey (Join [''/p'', ''bin'', ''entrypoint''])) =
      Some (FileNode (replicate 5000000 (CHR ''E'')) m)) \<and>
   fst (extractLayerContent
        \<lparr>bytes_NewReader = (\<lambda>b. b), gzip_NewReader = (\<lambda>r. None), tar_NewReader = (\<lambda>r. ([], False))\<rparr>
        \<lparr>nodes = [(True, [''p'']) \<mapsto> DirNode], umask = 0x12\<rparr>
        (CHR ''n'' # replicate 199 (CHR ''a'')) ''/p'') = None \<and>
   (\<exists>m. nodes (snd (extractLayerContent
        \<lparr>bytes_NewReader = (\<lambda>b. b), gzip_NewReader = (\<lambda>r. None), tar_NewReader = (\<lambda>r. ([], False))\<rparr>
        \<lparr>nodes = [(True, [''p'']) \<mapsto> DirNode], umask = 0x12\<rparr>
        (CHR ''n'' # replicate 199 (CHR ''a'')) ''/p''))
        (pathKey (Join [''/p'', ''thin.provider.yaml''])) =
      Some (FileNode (CHR ''n'' # replicate 199 (CHR ''a'')) m)) \<and>
   extractLayerContent
        \<lparr>bytes_NewReader = (\<lambda>b. b), gzip_NewReader = (\<lambda>r. None), tar_NewReader = (\<lambda>r. ([], False))\<rparr>
        \<lparr>nodes = Map.empty, umask = 0x12\<rparr> [CHR 0x01, CHR 0x02] ''/p''
      = (None, \<lparr>nodes = Map.empty, umask = 0x12\<rparr>) \<and>
   extractLayerContent
        \<lparr>bytes_NewReader = (\<lambda>b. b), gzip_NewReader = (\<lambda>r. None), tar_NewReader = (\<lambda>r. ([], False))\<rparr>
        \<lparr>nodes = Map.empty, umask = 0x12\<rparr> [CHR 0x1F, CHR 0x8B, CHR 0x08] ''/p''
      = (Some GzipError, \<lparr>nodes = Map.empty, umask = 0x12\<rparr>) \<and>
   extractLayerContent
        \<lparr>bytes_NewReader = (\<lambda>b. b), gzip_NewReader = (\<lambda>r. None), tar_NewReader = (\<lambda>r. ([], True))\<rparr>
        \<lparr>nodes = Map.empty, umask = 0x12\<rparr>
        (replicate 257 (CHR 0x00) @ ''ustar'' @ replicate 250 (CHR 0x00)) ''/p''
      = (Some TarHeaderError, \<lparr>nodes = Map.empty, umask = 0x12\<rparr>)"
proof -
  let ?rd = "\<lparr>bytes_NewReader = (\<lambda>b. b), gzip_NewReader = (\<lambda>r. None),
      tar_NewReader = (\<lambda>r. ([] :: TarEntry list, False))\<rparr> :: string Readers"
  let ?rdE = "\<lparr>bytes_NewReader = (\<lambda>b. b), gzip_NewReader = (\<lambda>r. None),
      tar_NewReader = (\<lambda>r. ([] :: TarEntry list, True))\<rparr> :: string Readers"
  let ?fs = "\<lparr>nodes = Map.empty, umask = 0x12\<rparr>"
  let ?fsp = "\<lparr>nodes = [(True, [''p'']) \<mapsto> DirNode], umask = 0x12\<rparr>"
  define big where "big = replicate 5000000 (CHR ''E'')"
  define yaml where "yaml = CHR ''n'' # replicate 199 (CHR ''a'')"
  define tarb where "tarb = replicate 257 (CHR 0x00) @ ''ustar'' @ replicate 250 (CHR 0x00)"
  have big: "\<not> HasPrefix big gzipMagic" "\<not> isTar big" "4000000 < length big"
    by (simp_all add: big_def HasPrefix_def gzipMagic_def isTar_def replicate_not_ustar)
  have yaml: "\<not> HasPrefix yaml gzipMagic" "\<not> isTar yaml" "length yaml \<le> 4000000"
    "startsPrintable yaml"
    by (simp_all add: yaml_def HasPrefix_def gzipMagic_def isTar_def startsPrintable_def)
  have raw: "\<not> HasPrefix [CHR 0x01, CHR 0x02] gzipMagic" "\<not> isTar [CHR 0x01, CHR 0x02]"
    "length [CHR 0x01, CHR 0x02] \<le> 4000000" "\<not> startsPrintable [CHR 0x01, CHR 0x02]"
    by (simp_all add: HasPrefix_def gzipMagic_def isTar_def startsPrintable_def)
  have gz: "HasPrefix [CHR 0x1F, CHR 0x8B, CHR 0x08] gzipMagic"
    by (simp add: HasPrefix_def gzipMagic_def)
  have tarb: "\<not> HasPrefix tarb gzipMagic" "isTar tarb"
    by (simp_all add: tarb_def HasPrefix_def gzipMagic_def isTar_def)
  have ok1: "fst (extractLayerContent ?rd ?fs big ''/p'') = None"
    using big by (simp add: extractLayerContent_def fs_defs path_defs Let_def)
  have 1: "\<exists>m. nodes (snd (extractLayerContent ?rd ?fs big ''/p''))
        (pathKey (Join [''/p'', ''bin'', ''entrypoint''])) = Some (FileNode big m)"
    using C4_extractLayerContent_dispatch [of big ?rd ?fs "''/p''"] big ok1
    by (cases "extractLayerContent ?rd ?fs big ''/p''") simp
  have ok2: "fst (extractLayerContent ?rd ?fsp yaml ''/p'') = None"
    using yaml by (simp add: extractLayerContent_def fs_defs path_defs Let_def)
  have 2: "\<exists>m. nodes (snd (extractLayerContent ?rd ?fsp yaml ''/p''))
        (pathKey (Join [''/p'', ''thin.provider.yaml''])) = Some (FileNode yaml m)"
    using C4_extractLayerContent_dispatch [of yaml ?rd ?fsp "''/p''"] yaml ok2
    by (cases "extractLayerContent ?rd ?fsp yaml ''/p''") simp
  have 3: "extractLayerContent ?rd ?fs [CHR 0x01, CHR 0x02] ''/p'' = (None, ?fs)"
    using C4_extractLayerContent_dispatch [of "[CHR 0x01, CHR 0x02]" ?rd ?fs "''/p''"] raw
    by simp
  have 4: "extractLayerContent ?rd ?fs [CHR 0x1F, CHR 0x8B, CHR 0x08] ''/p'' = (Some GzipError, ?fs)"
    using C4_extractLayerContent_dispatch [of "[CHR 0x1F, CHR 0x8B, CHR 0x08]" ?rd ?fs "''/p''"] gz
    by simp
  have 5: "extractLayerContent ?rdE ?fs tarb ''/p'' = (Some TarHeaderError, ?fs)"
    using C4_extractLayerContent_dispatch [of tarb ?rdE ?fs "''/p''"] tarb
    by (simp add: extractTarWithReader_def)
  from ok1 1 ok2 2 3 4 5 show ?thesis
    unfolding big_def yaml_def tarb_def by blast
qed

section \<open>Claims about progress reporting\<close>

lemma sint_add_count:
  fixes w :: "64 word"
  assumes "0 \<le> sint w" "sint w + int n < 2 ^ 63"
  shows "sint (w + word_of_nat n) = sint w + int n"
proof -
  have n: "int n < 2 ^ 63" using assms by linarith
  have "sint (word_of_nat n :: 64 word) = signed_take_bit 63 (int n)"
    by (simp add: signed_of_nat)
  also have "\<dots> = int n"
    using n by (simp add: signed_take_bit_int_eq_self)
  finally have s: "sint (word_of_nat n :: 64 word) = int n" .
  have "sint (w + word_of_nat n) =
      signed_take_bit 63 (sint w + sint (word_of_nat n :: 64 word))"
    by (simp only: sint_word_ariths) simp
  also have "\<dots> = sint w + int n"
    using assms by (simp add: s signed_take_bit_int_eq_self)
  finally show ?thesis .
qed

lemma progressTracker_Read_monotone:
  assumes "0 \<le> sint (bytesRead pt)" "sint (bytesRead pt) + int n < 2 ^ 63"
  shows "sint (bytesRead pt) \<le> sint (bytesRead (fst (progressTracker_Read pt handler n now)))"
  using sint_add_count [OF assms]
  by (simp add: progressTracker_Read_def Let_def)

text \<open>
  C5, evaluated on the code. \<open>trackedFetchAll\<close> returns the handler it was given: it
  calls the plain fetch and wraps nothing. So when a worker has downloaded a layer of
  any size, the handler's record for the layer still has \<open>BytesRead = 0\<close>: no byte count
  is ever reported.
\<close>

theorem C5_download_reports_no_progress:
  assumes "16 \<le> length (Digest layer)" and "fetchAll layer = Inr bytes"
  shows "snd (trackedFetchAll fetchAll layer handler) = handler \<and>
         (\<exists>h'. downloadLayer fetchAll handler layer = Some (Inr bytes, h') \<and>
               progress h' (take 16 (Digest layer)) =
                 Some \<lparr>npDescriptor = layer, Status = ''Downloaded'', BytesRead = 0\<rparr>)"
proof -
  from assms(1) have d: "digestStr layer = Some (take 16 (Digest layer))"
    by (simp add: digestStr_def slice_def)
  have t: "trackedFetchAll fetchAll layer h = (Inr bytes, h)" for h
    by (simp add: trackedFetchAll_def assms(2))
  show ?thesis
    by (simp add: t downloadLayer_def OnNodeDownloading_def OnNodeDownloaded_def d)
qed

text \<open>C5 at a layer of 1000 bytes.\<close>

theorem C5_witness:
  "\<exists>h'. downloadLayer (\<lambda>l. Inr (replicate 1000 (CHR ''x'')) :: unit + string)
        \<lparr>progress = Map.empty, currentNode = []\<rparr>
        \<lparr>MediaType = ''application/vnd.sourceplane.assets.v1'',
         Digest = ''sha256:0123456789abcdef'', Size = 1000\<rparr>
      = Some (Inr (replicate 1000 (CHR ''x'')), h') \<and>
      progress h' ''sha256:012345678'' =
        Some \<lparr>npDescriptor = \<lparr>MediaType = ''application/vnd.sourceplane.assets.v1'',
                 Digest = ''sha256:0123456789abcdef'', Size = 1000\<rparr>,
              Status = ''Downloaded'', BytesRead = 0\<rparr>"
  using C5_download_reports_no_progress [of
      "\<lparr>MediaType = ''application/vnd.sourceplane.assets.v1'',
         Digest = ''sha256:0123456789abcdef'', Size = 1000\<rparr>"
      "\<lambda>l. Inr (replicate 1000 (CHR ''x'')) :: unit + string"
      "replicate 1000 (CHR ''x'')" "\<lparr>progress = Map.empty, currentNode = []\<rparr>"]
  by simp

end
